theory Spec2Isabelle
  imports Main
begin

unbundle bit_operations_syntax

section \<open>Text primitives used by the stream loop\<close>

text \<open>
  The chunk text handled by \<^verbatim>\<open>streamApiResponse\<close> is a JavaScript string. It is modelled as
  a \<^typ>\<open>string\<close>, whose characters are the code units below 256; the operations below are
  the library calls the loop makes on it: \<^verbatim>\<open>chunk.split('\n')\<close>,
  \<^verbatim>\<open>line.startsWith('data: ')\<close>, \<^verbatim>\<open>line.slice(6)\<close> and \<^verbatim>\<open>s.trim()\<close>.
\<close>

fun cons_first :: "char \<Rightarrow> string list \<Rightarrow> string list" where
  "cons_first c [] = [[c]]"
| "cons_first c (l # ls) = (c # l) # ls"

text \<open>\<^verbatim>\<open>s.split('\n')\<close>: the pieces between line feeds; always at least one piece.\<close>

fun split_newline :: "string \<Rightarrow> string list" where
  "split_newline [] = [[]]"
| "split_newline (c # cs) =
     (if c = CHR 0x0A then [] # split_newline cs else cons_first c (split_newline cs))"

definition startsWith :: "string \<Rightarrow> string \<Rightarrow> bool" where
  "startsWith s p = (take (length p) s = p)"

definition slice :: "string \<Rightarrow> nat \<Rightarrow> string" where
  "slice s n = drop n s"

text \<open>White space and line terminators of ECMAScript that fit in one 8-bit character.\<close>

definition is_white_space :: "char \<Rightarrow> bool" where
  "is_white_space c =
     (c = CHR 0x09 \<or> c = CHR 0x0A \<or> c = CHR 0x0B \<or> c = CHR 0x0C \<or> c = CHR 0x0D
      \<or> c = CHR 0x20 \<or> c = CHR 0xA0)"

definition trim :: "string \<Rightarrow> string" where
  "trim s = rev (dropWhile is_white_space (rev (dropWhile is_white_space s)))"

text \<open>\<^verbatim>\<open>n.toString()\<close> for a number that is a natural: its decimal digits.\<close>

definition digit :: "nat \<Rightarrow> char" where
  "digit k = ''0123456789'' ! k"

fun toString :: "nat \<Rightarrow> string" where
  "toString n = (if n < 10 then [digit n] else toString (n div 10) @ [digit (n mod 10)])"

declare toString.simps [simp del]

section \<open>Data model\<close>

datatype role = user | assistant

text \<open>\<^verbatim>\<open>interface Message\<close>. The timestamp is a number of milliseconds.\<close>

record Message =
  msg_id :: string
  msg_role :: role
  msg_content :: string
  msg_timestamp :: nat

text \<open>
  \<^verbatim>\<open>interface StreamResponse\<close>, the object \<^verbatim>\<open>JSON.parse\<close> returns for one line.
  \<^verbatim>\<open>thread_id\<close> and \<^verbatim>\<open>error_message\<close> are options: \<open>None\<close> is a field that is absent or
  \<^verbatim>\<open>null\<close>. The \<^verbatim>\<open>type\<close> field is kept as the string the server sent; a \<^verbatim>\<open>type\<close> or a
  \<^verbatim>\<open>content\<close> that is absent is the empty string, which the loop treats alike.
\<close>

record StreamResponse =
  frame_type :: string
  content :: string
  thread_id :: "string option"
  session_id :: string
  has_artifact :: bool
  error_message :: "string option"

text \<open>A value caught by a \<^verbatim>\<open>catch\<close>: an \<^verbatim>\<open>Error\<close> with its name and message, or anything else.\<close>

datatype thrown = Error string string | NonError

text \<open>
  What the component does that is visible outside: the three callbacks of its props and
  \<^verbatim>\<open>console.error\<close> (its label and the message of the logged error).
\<close>

datatype event =
    SendMessage string
  | StreamingUpdate string
  | MessageComplete Message
  | ConsoleError string string

text \<open>
  The state of one \<^verbatim>\<open>ChatInterface\<close>: its three state variables, the ref holding the
  current \<^verbatim>\<open>AbortController\<close> (controllers are numbered in creation order), the set of
  controllers whose signal is aborted, the local \<^verbatim>\<open>accumulatedContent\<close> of the running
  \<^verbatim>\<open>streamApiResponse\<close>, and the trace of events so far, oldest first.
\<close>

record state =
  isStreaming :: bool
  streamingMessage :: string
  streamingId :: string
  abortControllerRef :: "nat option"
  aborted :: "nat set"
  allocated :: nat
  accumulatedContent :: string
  emitted :: "event list"

text \<open>
  What one call of \<^verbatim>\<open>streamApiResponse\<close> closes over: \<^verbatim>\<open>JSON.parse\<close> (the platform's,
  taken as it is; \<open>Inl\<close> is the message of the error thrown by it, or by the first access
  to a field when it returns \<^verbatim>\<open>null\<close>), the \<^verbatim>\<open>chatId\<close> prop of the render that started
  the call (\<open>None\<close> when the prop is not given), and the three clock readings it can make:
  \<^verbatim>\<open>Date.now()\<close> for the streaming id, \<^verbatim>\<open>Date.now()\<close> for the id of the message it hands
  over, \<^verbatim>\<open>new Date()\<close> for its timestamp.
\<close>

record env =
  parse :: "string \<Rightarrow> string + StreamResponse"
  chatId :: "string option"
  t_start :: nat
  t_id :: nat
  t_ts :: nat

definition emit :: "event \<Rightarrow> state \<Rightarrow> state" where
  "emit e st = st\<lparr>emitted := emitted st @ [e]\<rparr>"

section \<open>The stop button and the chat-change effect\<close>

text \<open>\<^verbatim>\<open>handleStopGeneration\<close>.\<close>

definition handleStopGeneration :: "state \<Rightarrow> state" where
  "handleStopGeneration st =
     (let st1 = (case abortControllerRef st of
                   Some c \<Rightarrow> st\<lparr>aborted := insert c (aborted st)\<rparr>
                 | None \<Rightarrow> st)
      in st1\<lparr>isStreaming := False, streamingMessage := [], streamingId := []\<rparr>)"

text \<open>The effect \<^verbatim>\<open>useEffect(..., [chatId])\<close>, run when the chat changes.\<close>

definition chatId_effect :: "state \<Rightarrow> state" where
  "chatId_effect st =
     (let st1 = (case abortControllerRef st of
                   Some c \<Rightarrow> st\<lparr>aborted := insert c (aborted st)\<rparr>
                 | None \<Rightarrow> st)
      in st1\<lparr>isStreaming := False, streamingMessage := [], streamingId := []\<rparr>)"

text \<open>What the user can do while a call of \<^verbatim>\<open>streamApiResponse\<close> is suspended at an \<^verbatim>\<open>await\<close>.\<close>

datatype user_action = StopClicked | ChatChanged

fun act :: "user_action \<Rightarrow> state \<Rightarrow> state" where
  "act StopClicked st = handleStopGeneration st"
| "act ChatChanged st = chatId_effect st"

section \<open>The body of the stream loop\<close>

text \<open>
  What the first statements of the loop body make of one line: nothing (the line is not a
  data line, or its payload trims to nothing or to \<^verbatim>\<open>[DONE]\<close>), an exception of
  \<^verbatim>\<open>JSON.parse\<close>, or the parsed object.
\<close>

datatype decoded = Skip | Malformed string | Frame StreamResponse

definition decode_line :: "env \<Rightarrow> string \<Rightarrow> decoded" where
  "decode_line ev line =
     (if startsWith line ''data: '' \<and> trim line \<noteq> ''data: '' then
        (let jsonStr = slice line 6
         in if trim jsonStr = [] \<or> trim jsonStr = ''[DONE]'' then Skip
            else (case parse ev jsonStr of
                    Inl err \<Rightarrow> Malformed err
                  | Inr data \<Rightarrow> Frame data))
      else Skip)"

datatype control = Continue | Return

text \<open>
  The statements after \<^verbatim>\<open>JSON.parse\<close> inside the inner \<^verbatim>\<open>try\<close>. \<open>Inl\<close> is the
  \<^verbatim>\<open>throw new Error(data.error_message)\<close>, with the state at the throw. A string is truthy
  when it is not empty.
\<close>

definition truthy :: "string option \<Rightarrow> bool" where
  "truthy v = (case v of Some s \<Rightarrow> s \<noteq> [] | None \<Rightarrow> False)"

definition process_frame ::
  "env \<Rightarrow> state \<Rightarrow> StreamResponse \<Rightarrow> (string \<times> state) + (control \<times> state)" where
  "process_frame ev st data =
     (if truthy (error_message data) then
        (let m = (case error_message data of Some s \<Rightarrow> s | None \<Rightarrow> [])
         in Inl (m, emit (ConsoleError ''Stream error:'' m) st))
      else if truthy (thread_id data) \<and> thread_id data \<noteq> chatId ev then Inr (Continue, st)
      else if frame_type data = ''delta'' \<and> content data \<noteq> [] then
        (let acc = accumulatedContent st @ content data
         in Inr (Continue,
              emit (StreamingUpdate acc)
                (st\<lparr>accumulatedContent := acc, streamingMessage := acc\<rparr>)))
      else if frame_type data = ''completion'' then
        (let finalMessage =
               \<lparr>msg_id = toString (t_id ev), msg_role = assistant,
                msg_content = accumulatedContent st, msg_timestamp = t_ts ev\<rparr>
         in Inr (Return,
              (emit (MessageComplete finalMessage) st)
                \<lparr>isStreaming := False, streamingMessage := [], streamingId := []\<rparr>))
      else Inr (Continue, st))"

text \<open>
  The inner \<^verbatim>\<open>catch (parseError)\<close>: it logs whatever the inner \<^verbatim>\<open>try\<close> threw and
  lets the loop go on with the next line.
\<close>

fun inner_catch :: "(string \<times> state) + (control \<times> state) \<Rightarrow> control \<times> state" where
  "inner_catch (Inl (err, st)) = (Continue, emit (ConsoleError ''Error parsing SSE data:'' err) st)"
| "inner_catch (Inr r) = r"

text \<open>The body of \<^verbatim>\<open>for (const line of lines)\<close>.\<close>

definition process_line :: "env \<Rightarrow> state \<Rightarrow> string \<Rightarrow> control \<times> state" where
  "process_line ev st line =
     (case decode_line ev line of
        Skip \<Rightarrow> (Continue, st)
      | Malformed err \<Rightarrow> inner_catch (Inl (err, st))
      | Frame data \<Rightarrow> inner_catch (process_frame ev st data))"

fun process_lines :: "env \<Rightarrow> state \<Rightarrow> string list \<Rightarrow> control \<times> state" where
  "process_lines ev st [] = (Continue, st)"
| "process_lines ev st (line # lines) =
     (case process_line ev st line of
        (Return, st') \<Rightarrow> (Return, st')
      | (Continue, st') \<Rightarrow> process_lines ev st' lines)"

section \<open>The read loop\<close>

text \<open>
  How one \<^verbatim>\<open>await reader.read()\<close> settles: a chunk (its text, as
  \<^verbatim>\<open>decoder.decode(value, { stream: true })\<close> returns it), the end of the stream, or a
  rejection.
\<close>

datatype read_result = Value string | Done | Rejects thrown

text \<open>
  What happens while the loop is suspended at \<^verbatim>\<open>await reader.read()\<close>: the user acts, or
  the read settles and the loop goes on. This is one call on its own; what other calls of
  the same component do in between is the subject of the section on several calls.
\<close>

datatype input = ReadSettles read_result | Action user_action

text \<open>
  How the loop is left: by the \<^verbatim>\<open>return\<close> of the completion branch, by \<^verbatim>\<open>break\<close>, by an
  exception, or not at all (the call is still waiting for a read when the inputs end).
\<close>

datatype exit = Returned | Break | Threw thrown | Pending

fun read_loop :: "env \<Rightarrow> nat \<Rightarrow> state \<Rightarrow> input list \<Rightarrow> exit \<times> state" where
  "read_loop ev signal st [] = (Pending, st)"
| "read_loop ev signal st (Action a # ins) = read_loop ev signal (act a st) ins"
| "read_loop ev signal st (ReadSettles (Rejects e) # ins) = (Threw e, st)"
| "read_loop ev signal st (ReadSettles Done # ins) = (Break, st)"
| "read_loop ev signal st (ReadSettles (Value chunk) # ins) =
     (if signal \<in> aborted st then (Break, st)
      else (case process_lines ev st (split_newline chunk) of
              (Return, st') \<Rightarrow> (Returned, st')
            | (Continue, st') \<Rightarrow> read_loop ev signal st' ins))"

section \<open>\<^verbatim>\<open>streamApiResponse\<close> and \<^verbatim>\<open>handleSendMessage\<close>\<close>

text \<open>The part of the \<^verbatim>\<open>Response\<close> the call looks at.\<close>

record response =
  ok :: bool
  status :: nat
  has_reader :: bool

text \<open>
  What the surroundings give one call: the stored token, what the user does while
  \<^verbatim>\<open>fetch\<close> is pending, how \<^verbatim>\<open>fetch\<close> settles, and what happens at the reads.
\<close>

record io =
  token :: "string option"
  during_fetch :: "user_action list"
  fetch_result :: "thrown + response"
  inputs :: "input list"

definition try_block :: "env \<Rightarrow> io \<Rightarrow> nat \<Rightarrow> state \<Rightarrow> exit \<times> state" where
  "try_block ev x signal st =
     (if \<not> truthy (token x) then (Threw (Error ''Error'' ''No authentication token found''), st)
      else
        (let st1 = fold act (during_fetch x) st
         in case fetch_result x of
              Inl e \<Rightarrow> (Threw e, st1)
            | Inr resp \<Rightarrow>
                if \<not> ok resp then
                  (Threw (Error ''Error'' (''HTTP error! status: '' @ toString (status resp))),
                   st1)
                else
                  (let st2 = st1\<lparr>accumulatedContent := []\<rparr>
                   in if \<not> has_reader resp then
                        (Threw (Error ''Error'' ''No response body reader available''), st2)
                      else read_loop ev signal st2 (inputs x))))"

text \<open>The condition of the outer \<^verbatim>\<open>catch\<close>: an \<^verbatim>\<open>Error\<close> whose name is not \<^verbatim>\<open>AbortError\<close>.\<close>

fun reported :: "thrown \<Rightarrow> bool" where
  "reported (Error name message) = (name \<noteq> ''AbortError'')"
| "reported NonError = False"

fun message_of :: "thrown \<Rightarrow> string" where
  "message_of (Error name message) = message"
| "message_of NonError = []"

definition errorMessage :: "env \<Rightarrow> Message" where
  "errorMessage ev =
     \<lparr>msg_id = toString (t_id ev), msg_role = assistant,
      msg_content =
        ''Sorry, I encountered an error while processing your request. Please try again.'',
      msg_timestamp = t_ts ev\<rparr>"

definition catch_block :: "env \<Rightarrow> thrown \<Rightarrow> state \<Rightarrow> state" where
  "catch_block ev e st =
     (if reported e then
        emit (MessageComplete (errorMessage ev))
          (emit (ConsoleError ''Streaming error:'' (message_of e)) st)
      else st)"

definition finally_block :: "state \<Rightarrow> state" where
  "finally_block st =
     st\<lparr>isStreaming := False, streamingMessage := [], streamingId := [],
        abortControllerRef := None\<rparr>"

text \<open>
  How the outer \<^verbatim>\<open>try\<close> statement ends, given how its block ended: the \<^verbatim>\<open>catch\<close> runs
  on an exception, and \<^verbatim>\<open>finally\<close> runs whenever the block is left.
\<close>

fun catch_finally :: "env \<Rightarrow> exit \<times> state \<Rightarrow> exit \<times> state" where
  "catch_finally ev (Pending, st) = (Pending, st)"
| "catch_finally ev (Threw e, st) = (Threw e, finally_block (catch_block ev e st))"
| "catch_finally ev (Returned, st) = (Returned, finally_block st)"
| "catch_finally ev (Break, st) = (Break, finally_block st)"

text \<open>
  \<^verbatim>\<open>streamApiResponse\<close>. The controller it creates is the next one, and its signal is not
  aborted. A call that is still waiting when the inputs end has run neither \<^verbatim>\<open>catch\<close>
  nor \<^verbatim>\<open>finally\<close>.
\<close>

definition streamApiResponse :: "env \<Rightarrow> io \<Rightarrow> state \<Rightarrow> exit \<times> state" where
  "streamApiResponse ev x st =
     (let signal = allocated st;
          st0 = st\<lparr>isStreaming := True, streamingMessage := [],
                   streamingId := ''streaming-'' @ toString (t_start ev),
                   abortControllerRef := Some signal, aborted := aborted st - {signal},
                   allocated := Suc signal\<rparr>
      in catch_finally ev (try_block ev x signal st0))"

text \<open>
  \<^verbatim>\<open>handleSendMessage\<close>: \<open>None\<close> when the guard returns at once, otherwise how the call of
  \<^verbatim>\<open>streamApiResponse\<close> ended.
\<close>

definition handleSendMessage :: "env \<Rightarrow> io \<Rightarrow> state \<Rightarrow> string \<Rightarrow> exit option \<times> state" where
  "handleSendMessage ev x st message =
     (if trim message = [] \<or> isStreaming st then (None, st)
      else (case streamApiResponse ev x (emit (SendMessage message) st) of
              (r, st') \<Rightarrow> (Some r, st')))"

section \<open>Several calls on one component\<close>

text \<open>
  A call of \<^verbatim>\<open>streamApiResponse\<close> runs from one \<^verbatim>\<open>await\<close> to the next without
  interruption, and between two such runs the user can act and other calls can run. All
  calls share the state variables and the ref of the component; each has its own
  \<^verbatim>\<open>signal\<close>, \<^verbatim>\<open>chatId\<close> and \<^verbatim>\<open>accumulatedContent\<close>. This is what a suspended call waits
  for: the \<^verbatim>\<open>fetch\<close>, or a read.
\<close>

datatype awaiting = Fetch | Read

text \<open>
  What a suspended call keeps to itself: what it closes over, the token it read, where it
  waits, and its \<^verbatim>\<open>accumulatedContent\<close>.
\<close>

record call =
  call_env :: env
  call_token :: "string option"
  awaits :: awaiting
  call_content :: string

text \<open>
  The component: the shared state, and the suspended calls by the number of their
  controller. The field \<open>accumulatedContent\<close> of the shared state is the working copy of
  the call that runs; the value of each call is kept in \<open>call_content\<close>.
\<close>

record component =
  shared :: state
  calls :: "nat \<rightharpoonup> call"

text \<open>A component with no call in progress.\<close>

definition mounted :: "state \<Rightarrow> component" where
  "mounted st = \<lparr>shared = st, calls = Map.empty\<rparr>"

text \<open>The statements of \<^verbatim>\<open>streamApiResponse\<close> before its \<^verbatim>\<open>try\<close>.\<close>

definition enter :: "env \<Rightarrow> state \<Rightarrow> state" where
  "enter ev st =
     st\<lparr>isStreaming := True, streamingMessage := [],
        streamingId := ''streaming-'' @ toString (t_start ev),
        abortControllerRef := Some (allocated st), aborted := aborted st - {allocated st},
        allocated := Suc (allocated st)\<rparr>"

text \<open>The surroundings of a call up to the moment its \<^verbatim>\<open>fetch\<close> settles.\<close>

definition fetching :: "string option \<Rightarrow> thrown + response \<Rightarrow> io" where
  "fetching tok res = \<lparr>token = tok, during_fetch = [], fetch_result = res, inputs = []\<rparr>"

text \<open>
  \<^verbatim>\<open>handleSendMessage\<close> up to the first \<^verbatim>\<open>await\<close> of the call it starts. With a token the
  call is suspended at \<^verbatim>\<open>fetch\<close>. Without one it throws before \<^verbatim>\<open>fetch\<close> and runs its
  \<^verbatim>\<open>catch\<close> and \<^verbatim>\<open>finally\<close> at once (the result of \<^verbatim>\<open>fetch\<close> given here is never looked
  at).
\<close>

definition send :: "env \<Rightarrow> string option \<Rightarrow> string \<Rightarrow> component \<Rightarrow> component" where
  "send ev tok message s =
     (if trim message = [] \<or> isStreaming (shared s) then s
      else
        (let st = emit (SendMessage message) (shared s)
         in if truthy tok then
              s\<lparr>shared := enter ev st,
                calls := (calls s)(allocated st \<mapsto>
                  \<lparr>call_env = ev, call_token = tok, awaits = Fetch, call_content = []\<rparr>)\<rparr>
            else s\<lparr>shared := snd (streamApiResponse ev (fetching tok (Inl NonError)) st)\<rparr>))"

text \<open>
  The \<^verbatim>\<open>fetch\<close> of the call with controller \<open>c\<close> settles: the call runs on, to its first
  read or to its end through \<^verbatim>\<open>catch\<close> and \<^verbatim>\<open>finally\<close>. Nothing happens when no such call
  waits for its \<^verbatim>\<open>fetch\<close>.
\<close>

definition fetch_settled :: "nat \<Rightarrow> thrown + response \<Rightarrow> component \<Rightarrow> component" where
  "fetch_settled c res s =
     (case calls s c of
        None \<Rightarrow> s
      | Some k \<Rightarrow>
          (case awaits k of
             Read \<Rightarrow> s
           | Fetch \<Rightarrow>
               (let (r, st) = try_block (call_env k) (fetching (call_token k) res) c (shared s)
                in if r = Pending then
                     s\<lparr>shared := st,
                       calls := (calls s)(c \<mapsto>
                         k\<lparr>awaits := Read, call_content := accumulatedContent st\<rparr>)\<rparr>
                   else s\<lparr>shared := snd (catch_finally (call_env k) (r, st)),
                          calls := (calls s)(c := None)\<rparr>)))"

text \<open>
  A read of the call with controller \<open>c\<close> settles: the call runs one turn of its loop, to
  the next read or to its end through \<^verbatim>\<open>catch\<close> and \<^verbatim>\<open>finally\<close>. Nothing happens when no
  such call waits for a read.
\<close>

definition read_settled :: "nat \<Rightarrow> read_result \<Rightarrow> component \<Rightarrow> component" where
  "read_settled c res s =
     (case calls s c of
        None \<Rightarrow> s
      | Some k \<Rightarrow>
          (case awaits k of
             Fetch \<Rightarrow> s
           | Read \<Rightarrow>
               (let (r, st) = read_loop (call_env k) c
                                ((shared s)\<lparr>accumulatedContent := call_content k\<rparr>)
                                [ReadSettles res]
                in if r = Pending then
                     s\<lparr>shared := st,
                       calls := (calls s)(c \<mapsto> k\<lparr>call_content := accumulatedContent st\<rparr>)\<rparr>
                   else s\<lparr>shared := snd (catch_finally (call_env k) (r, st)),
                          calls := (calls s)(c := None)\<rparr>)))"

text \<open>
  What can happen to the component: the user sends a message (with the \<^verbatim>\<open>chatId\<close> and the
  clock of that moment, and the token stored then), presses the stop button or changes the
  chat, or the \<^verbatim>\<open>fetch\<close> or a read of some call settles.
\<close>

datatype occurrence =
    UserSend env "string option" string
  | UserStop
  | UserChatChange
  | FetchSettled nat "thrown + response"
  | ReadSettled nat read_result

fun occur :: "occurrence \<Rightarrow> component \<Rightarrow> component" where
  "occur (UserSend ev tok message) s = send ev tok message s"
| "occur UserStop s = s\<lparr>shared := handleStopGeneration (shared s)\<rparr>"
| "occur UserChatChange s = s\<lparr>shared := chatId_effect (shared s)\<rparr>"
| "occur (FetchSettled c res) s = fetch_settled c res s"
| "occur (ReadSettled c res) s = read_settled c res s"

text \<open>The component after a sequence of occurrences, oldest first.\<close>

definition history :: "state \<Rightarrow> occurrence list \<Rightarrow> component" where
  "history st es = fold occur es (mounted st)"

text \<open>The occurrences that call \<^verbatim>\<open>abort()\<close> on the controller in the ref.\<close>

fun cancels :: "occurrence \<Rightarrow> bool" where
  "cancels UserStop = True"
| "cancels UserChatChange = True"
| "cancels e = False"

text \<open>The suspended call that such an \<^verbatim>\<open>abort()\<close> reaches, if any.\<close>

definition cancelled_call :: "component \<Rightarrow> (nat \<times> call) option" where
  "cancelled_call s =
     (case abortControllerRef (shared s) of
        None \<Rightarrow> None
      | Some c \<Rightarrow> (case calls s c of None \<Rightarrow> None | Some k \<Rightarrow> Some (c, k)))"

text \<open>
  Modelled from the spec: \<^verbatim>\<open>fetch\<close> and the reader are the platform's and not part of the
  repository. The spec asks of the transport that \<^verbatim>\<open>cancel()\<close> immediately makes any
  pending read resolve to an aborted outcome. This is the aborted outcome: an \<^verbatim>\<open>Error\<close>
  named \<^verbatim>\<open>AbortError\<close>.
\<close>

fun aborts :: "thrown \<Rightarrow> bool" where
  "aborts (Error name message) = (name = ''AbortError'')"
| "aborts NonError = False"

text \<open>
  Modelled from the spec: the occurrence by which the pending \<^verbatim>\<open>fetch\<close> or read of the call
  \<open>k\<close> with controller \<open>c\<close> resolves to the aborted outcome.
\<close>

fun settles_aborted :: "nat \<Rightarrow> call \<Rightarrow> occurrence \<Rightarrow> bool" where
  "settles_aborted c k (FetchSettled c' (Inl e)) = (c' = c \<and> awaits k = Fetch \<and> aborts e)"
| "settles_aborted c k (ReadSettled c' (Rejects e)) = (c' = c \<and> awaits k = Read \<and> aborts e)"
| "settles_aborted c k e = False"

text \<open>
  Modelled from the spec: a sequence of occurrences in which \<^verbatim>\<open>cancel()\<close> takes effect
  immediately. Whenever the stop button or a change of chat aborts the controller of a
  suspended call, the very next occurrence is the aborted outcome of what that call waits
  for. Everything else is free: what is sent and when, how \<^verbatim>\<open>fetch\<close> and reads settle, for
  which call, and in which order.
\<close>

fun prompt_cancel :: "component \<Rightarrow> occurrence list \<Rightarrow> bool" where
  "prompt_cancel s [] = True"
| "prompt_cancel s [e] = (if cancels e then cancelled_call s = None else True)"
| "prompt_cancel s (e # e' # es) =
     (case (if cancels e then cancelled_call s else None) of
        None \<Rightarrow> prompt_cancel (occur e s) (e' # es)
      | Some (c, k) \<Rightarrow> settles_aborted c k e' \<and> prompt_cancel (occur e' (occur e s)) es)"

text \<open>
  Every suspended call holds the component: the streaming flag is up, the ref holds the
  controller of the call, and that controller is not aborted.
\<close>

definition one_live :: "component \<Rightarrow> bool" where
  "one_live s =
     (\<forall>c k. calls s c = Some k \<longrightarrow>
        isStreaming (shared s) \<and> abortControllerRef (shared s) = Some c
        \<and> c \<notin> aborted (shared s) \<and> truthy (call_token k))"

section \<open>The text decoder\<close>

text \<open>
  Modelled from the spec: the \<^verbatim>\<open>TextDecoder\<close> is the platform's and not part of the
  repository, which only creates one per call (\<^verbatim>\<open>new TextDecoder()\<close>, so for UTF-8) and
  hands it every chunk with \<^verbatim>\<open>{ stream: true }\<close>. The spec asks for a decoder of
  the stream's text encoding that buffers an incomplete trailing sequence instead of
  emitting malformed text. This is the state such a decoder keeps between two calls: the
  code point under construction, the bytes seen and needed for it, the range allowed for
  the next byte, and whether the start of the text is behind. A byte is a number below 256,
  a character is its code point.
\<close>

record utf8_decoder =
  code_point :: nat
  bytes_seen :: nat
  bytes_needed :: nat
  lower_boundary :: nat
  upper_boundary :: nat
  bom_seen :: bool

text \<open>Modelled from the spec: the decoder \<^verbatim>\<open>new TextDecoder()\<close> returns.\<close>

definition new_TextDecoder :: utf8_decoder where
  "new_TextDecoder =
     \<lparr>code_point = 0, bytes_seen = 0, bytes_needed = 0, lower_boundary = 0x80,
      upper_boundary = 0xBF, bom_seen = False\<rparr>"

text \<open>Modelled from the spec: the decoder after a sequence has ended, complete or not.\<close>

definition reset :: "utf8_decoder \<Rightarrow> utf8_decoder" where
  "reset d = d\<lparr>code_point := 0, bytes_seen := 0, bytes_needed := 0,
               lower_boundary := 0x80, upper_boundary := 0xBF\<rparr>"

text \<open>
  Modelled from the spec: a byte that arrives when no sequence is open. It is a character
  of its own, opens a sequence of two, three or four bytes, or is malformed and replaced
  by U+FFFD.
\<close>

definition lead_byte :: "utf8_decoder \<Rightarrow> nat \<Rightarrow> nat list \<times> utf8_decoder" where
  "lead_byte d b =
     (if b \<le> 0x7F then ([b], d)
      else if 0xC2 \<le> b \<and> b \<le> 0xDF then
        ([], d\<lparr>bytes_needed := 1, code_point := b AND 0x1F\<rparr>)
      else if 0xE0 \<le> b \<and> b \<le> 0xEF then
        ([], d\<lparr>lower_boundary := (if b = 0xE0 then 0xA0 else lower_boundary d),
               upper_boundary := (if b = 0xED then 0x9F else upper_boundary d),
               bytes_needed := 2, code_point := b AND 0xF\<rparr>)
      else if 0xF0 \<le> b \<and> b \<le> 0xF4 then
        ([], d\<lparr>lower_boundary := (if b = 0xF0 then 0x90 else lower_boundary d),
               upper_boundary := (if b = 0xF4 then 0x8F else upper_boundary d),
               bytes_needed := 3, code_point := b AND 0x7\<rparr>)
      else ([0xFFFD], d))"

text \<open>
  Modelled from the spec: one byte. Inside a sequence, a byte out of range ends the
  sequence with U+FFFD and is then read again as a first byte; a byte in range is added to
  the code point, which is emitted once the sequence is complete. An incomplete sequence
  emits nothing and stays in the state.
\<close>

definition utf8_handler :: "utf8_decoder \<Rightarrow> nat \<Rightarrow> nat list \<times> utf8_decoder" where
  "utf8_handler d b =
     (if bytes_needed d = 0 then lead_byte d b
      else if b < lower_boundary d \<or> upper_boundary d < b then
        (case lead_byte (reset d) b of (out, d') \<Rightarrow> (0xFFFD # out, d'))
      else
        (let d1 = d\<lparr>lower_boundary := 0x80, upper_boundary := 0xBF,
                     code_point := push_bit 6 (code_point d) OR (b AND 0x3F),
                     bytes_seen := bytes_seen d + 1\<rparr>
         in if bytes_seen d1 \<noteq> bytes_needed d1 then ([], d1)
            else ([code_point d1], reset d1)))"

text \<open>Modelled from the spec: the bytes of one chunk, in order.\<close>

fun decode_bytes :: "utf8_decoder \<Rightarrow> nat list \<Rightarrow> nat list \<times> utf8_decoder" where
  "decode_bytes d [] = ([], d)"
| "decode_bytes d (b # bs) =
     (case utf8_handler d b of
        (out, d1) \<Rightarrow> (case decode_bytes d1 bs of (out', d2) \<Rightarrow> (out @ out', d2)))"

text \<open>
  Modelled from the spec: a byte order mark at the very start of the text is dropped. The
  flag says whether the start is behind; the result carries the new flag.
\<close>

fun serialize :: "bool \<Rightarrow> nat list \<Rightarrow> nat list \<times> bool" where
  "serialize True out = (out, True)"
| "serialize False [] = ([], False)"
| "serialize False (c # cs) = (if c = 0xFEFF then cs else c # cs, True)"

text \<open>
  Modelled from the spec: \<^verbatim>\<open>decoder.decode(value, { stream: true })\<close>, the text of one
  chunk and the decoder afterwards. Nothing is flushed at the end of the chunk.
\<close>

definition decode :: "utf8_decoder \<Rightarrow> nat list \<Rightarrow> nat list \<times> utf8_decoder" where
  "decode d value =
     (case decode_bytes d value of
        (out, d') \<Rightarrow>
          (case serialize (bom_seen d') out of
             (text, seen) \<Rightarrow> (text, d'\<lparr>bom_seen := seen\<rparr>)))"

text \<open>
  The values of \<^verbatim>\<open>chunk\<close> over the iterations of the read loop, which hands every
  \<^verbatim>\<open>value\<close> to the one decoder of the call.
\<close>

fun decode_chunks :: "utf8_decoder \<Rightarrow> nat list list \<Rightarrow> nat list list \<times> utf8_decoder" where
  "decode_chunks d [] = ([], d)"
| "decode_chunks d (v # vs) =
     (case decode d v of
        (chunk, d') \<Rightarrow> (case decode_chunks d' vs of (chunks, d'') \<Rightarrow> (chunk # chunks, d'')))"

section \<open>Views of a trace and of a stream\<close>

text \<open>The messages handed to \<^verbatim>\<open>onMessageComplete\<close>, in order.\<close>

fun completions :: "event list \<Rightarrow> Message list" where
  "completions [] = []"
| "completions (MessageComplete m # es) = m # completions es"
| "completions (e # es) = completions es"

text \<open>The texts handed to \<^verbatim>\<open>onStreamingUpdate\<close>, in order.\<close>

fun updates :: "event list \<Rightarrow> string list" where
  "updates [] = []"
| "updates (StreamingUpdate s # es) = s # updates es"
| "updates (e # es) = updates es"

text \<open>The calls of the props' callbacks: everything but the console.\<close>

fun callbacks :: "event list \<Rightarrow> event list" where
  "callbacks [] = []"
| "callbacks (ConsoleError l m # es) = callbacks es"
| "callbacks (e # es) = e # callbacks es"

text \<open>The objects that \<^verbatim>\<open>JSON.parse\<close> returns for the lines of some chunks, in order.\<close>

fun frames_of_lines :: "env \<Rightarrow> string list \<Rightarrow> StreamResponse list" where
  "frames_of_lines ev [] = []"
| "frames_of_lines ev (l # ls) =
     (case decode_line ev l of
        Frame d \<Rightarrow> d # frames_of_lines ev ls
      | _ \<Rightarrow> frames_of_lines ev ls)"

definition frames_of_chunks :: "env \<Rightarrow> string list \<Rightarrow> StreamResponse list" where
  "frames_of_chunks ev chunks = frames_of_lines ev (concat (map split_newline chunks))"

text \<open>
  The frames the reducer applies for the chat of the call: a delta, or a completion, whose
  \<^verbatim>\<open>thread_id\<close> is the \<^verbatim>\<open>chatId\<close> and that carries no error message.
\<close>

definition matching_delta :: "env \<Rightarrow> StreamResponse \<Rightarrow> bool" where
  "matching_delta ev d =
     (frame_type d = ''delta'' \<and> thread_id d = chatId ev \<and> \<not> truthy (error_message d))"

definition matching_completion :: "env \<Rightarrow> StreamResponse \<Rightarrow> bool" where
  "matching_completion ev d =
     (frame_type d = ''completion'' \<and> thread_id d = chatId ev \<and> \<not> truthy (error_message d))"

text \<open>The message the completion branch builds from the accumulated text.\<close>

definition finalMessage :: "env \<Rightarrow> string \<Rightarrow> Message" where
  "finalMessage ev acc =
     \<lparr>msg_id = toString (t_id ev), msg_role = assistant, msg_content = acc,
      msg_timestamp = t_ts ev\<rparr>"

text \<open>The state after the completion branch: the message is handed over, the display reset.\<close>

definition settled :: "env \<Rightarrow> state \<Rightarrow> state" where
  "settled ev st =
     (emit (MessageComplete (finalMessage ev (accumulatedContent st))) st)
       \<lparr>isStreaming := False, streamingMessage := [], streamingId := []\<rparr>"

text \<open>The state after the delta branch has appended a text.\<close>

definition appended :: "string \<Rightarrow> state \<Rightarrow> state" where
  "appended c st =
     emit (StreamingUpdate (accumulatedContent st @ c))
       (st\<lparr>accumulatedContent := accumulatedContent st @ c,
           streamingMessage := accumulatedContent st @ c\<rparr>)"

text \<open>The state after an error frame: the two lines it leaves on the console.\<close>

definition logged_error :: "string \<Rightarrow> state \<Rightarrow> state" where
  "logged_error m st =
     emit (ConsoleError ''Error parsing SSE data:'' m) (emit (ConsoleError ''Stream error:'' m) st)"

text \<open>The reads of a stream that delivers the given chunks, with nothing in between.\<close>

definition chunk_reads :: "string list \<Rightarrow> input list" where
  "chunk_reads chunks = map (\<lambda>c. ReadSettles (Value c)) chunks"

text \<open>
  A call that reaches its read loop undisturbed: a token is stored, nobody acts while
  \<^verbatim>\<open>fetch\<close> is pending, and the response is ok and has a body.
\<close>

definition connected :: "io \<Rightarrow> bool" where
  "connected x =
     (truthy (token x) \<and> during_fetch x = []
      \<and> (case fetch_result x of Inr resp \<Rightarrow> ok resp \<and> has_reader resp | Inl e \<Rightarrow> False))"

text \<open>The state in which such a call enters its read loop.\<close>

definition started :: "env \<Rightarrow> state \<Rightarrow> state" where
  "started ev st =
     st\<lparr>isStreaming := True, streamingMessage := [],
        streamingId := ''streaming-'' @ toString (t_start ev),
        abortControllerRef := Some (allocated st), aborted := aborted st - {allocated st},
        allocated := Suc (allocated st), accumulatedContent := []\<rparr>"

text \<open>
  The ways of leaving the call that hand a message to \<^verbatim>\<open>onMessageComplete\<close>: the return
  of the completion branch, and an exception that the outer \<^verbatim>\<open>catch\<close> reports.
\<close>

fun terminal :: "exit \<Rightarrow> bool" where
  "terminal Returned = True"
| "terminal (Threw e) = reported e"
| "terminal Break = False"
| "terminal Pending = False"

text \<open>
  Two ways a trace can grow between two states: by events among which no message is
  handed over, or by such events followed by exactly one handing over of a message.
\<close>

definition quiet :: "state \<Rightarrow> state \<Rightarrow> bool" where
  "quiet st st' = (\<exists>es. emitted st' = emitted st @ es \<and> completions es = [])"

definition closing :: "state \<Rightarrow> state \<Rightarrow> bool" where
  "closing st st' =
     (\<exists>es m. emitted st' = emitted st @ es @ [MessageComplete m] \<and> completions es = [])"

text \<open>The line the server writes for a payload (without its line feed).\<close>

definition data_line :: "string \<Rightarrow> string" where
  "data_line p = ''data: '' @ p"

section \<open>Concrete streams\<close>

text \<open>
  The payloads of the concrete runs below, each with the object \<^verbatim>\<open>JSON.parse\<close> returns
  for it. On every other text used below (a piece of a payload) \<^verbatim>\<open>JSON.parse\<close> throws
  a \<^verbatim>\<open>SyntaxError\<close>.
\<close>

definition frame ::
  "string \<Rightarrow> string \<Rightarrow> string option \<Rightarrow> string option \<Rightarrow> StreamResponse" where
  "frame ty c t e =
     \<lparr>frame_type = ty, content = c, thread_id = t, session_id = ''session_1'',
      has_artifact = False, error_message = e\<rparr>"

definition payload_Hel :: string where
  \<open>payload_Hel = ''{"type":"delta","content":"Hel","thread_id":"t1","session_id":"session_1","has_artifact":false,"error_message":null}''\<close>

definition payload_lo :: string where
  \<open>payload_lo = ''{"type":"delta","content":"lo","thread_id":"t1","session_id":"session_1","has_artifact":false,"error_message":null}''\<close>

definition payload_Hi :: string where
  \<open>payload_Hi = ''{"type":"delta","content":"Hi","thread_id":"t1","session_id":"session_1","has_artifact":false,"error_message":null}''\<close>

text \<open>The payload above, cut in two inside its content.\<close>

definition payload_Hi_head :: string where
  \<open>payload_Hi_head = ''{"type":"delta","content":"H''\<close>

definition payload_Hi_tail :: string where
  \<open>payload_Hi_tail = ''i","thread_id":"t1","session_id":"session_1","has_artifact":false,"error_message":null}''\<close>

definition payload_completion :: string where
  \<open>payload_completion = ''{"type":"completion","content":"","thread_id":"t1","session_id":"session_1","has_artifact":false,"error_message":null}''\<close>

definition payload_completion_text :: string where
  \<open>payload_completion_text = ''{"type":"completion","content":"tail","thread_id":"t1","session_id":"session_1","has_artifact":false,"error_message":null}''\<close>

definition payload_boom :: string where
  \<open>payload_boom = ''{"type":"delta","content":"","thread_id":"t1","session_id":"session_1","has_artifact":false,"error_message":"boom"}''\<close>

definition payload_t2 :: string where
  \<open>payload_t2 = ''{"type":"delta","content":"y","thread_id":"t2","session_id":"session_1","has_artifact":false,"error_message":null}''\<close>

definition payload_no_thread :: string where
  \<open>payload_no_thread = ''{"type":"delta","content":"x","thread_id":"","session_id":"session_1","has_artifact":false,"error_message":null}''\<close>

definition payload_empty :: string where
  \<open>payload_empty = ''{"type":"delta","content":"","thread_id":"","session_id":"session_1","has_artifact":false,"error_message":null}''\<close>

definition wire :: "(string \<times> StreamResponse) list" where
  "wire =
     [(payload_Hel, frame ''delta'' ''Hel'' (Some ''t1'') None),
      (payload_lo, frame ''delta'' ''lo'' (Some ''t1'') None),
      (payload_Hi, frame ''delta'' ''Hi'' (Some ''t1'') None),
      (payload_completion, frame ''completion'' [] (Some ''t1'') None),
      (payload_completion_text, frame ''completion'' ''tail'' (Some ''t1'') None),
      (payload_boom, frame ''delta'' [] (Some ''t1'') (Some ''boom'')),
      (payload_t2, frame ''delta'' ''y'' (Some ''t2'') None),
      (payload_no_thread, frame ''delta'' ''x'' (Some []) None),
      (payload_empty, frame ''delta'' [] (Some []) None)]"

definition parse_wire :: "string \<Rightarrow> string + StreamResponse" where
  "parse_wire s = (case map_of wire s of Some d \<Rightarrow> Inr d | None \<Rightarrow> Inl ''SyntaxError'')"

text \<open>A call for the chat \<^verbatim>\<open>t1\<close>, by a component that has streamed nothing yet.\<close>

definition env1 :: env where
  "env1 = \<lparr>parse = parse_wire, chatId = Some ''t1'', t_start = 5, t_id = 6, t_ts = 7\<rparr>"

definition idle :: state where
  "idle = \<lparr>isStreaming = False, streamingMessage = [], streamingId = [],
           abortControllerRef = None, aborted = {}, allocated = 0,
           accumulatedContent = [], emitted = []\<rparr>"

text \<open>A token is stored, \<^verbatim>\<open>fetch\<close> answers 200 with a body, and the reads go as given.\<close>

definition io1 :: "input list \<Rightarrow> io" where
  "io1 ins = \<lparr>token = Some ''secret'', during_fetch = [],
             fetch_result = Inr \<lparr>ok = True, status = 200, has_reader = True\<rparr>, inputs = ins\<rparr>"

text \<open>The call for \<^verbatim>\<open>t1\<close> after the delta \<^verbatim>\<open>Hi\<close>, waiting for its next read.\<close>

definition mid_stream :: state where
  "mid_stream =
     \<lparr>isStreaming = True, streamingMessage = ''Hi'',
      streamingId = ''streaming-5'',
      abortControllerRef = Some 0, aborted = {}, allocated = 1,
      accumulatedContent = ''Hi'', emitted = [StreamingUpdate ''Hi'']\<rparr>"

text \<open>The rejection of a pending \<^verbatim>\<open>fetch\<close> or read whose signal is aborted.\<close>

definition abort_error :: thrown where
  "abort_error = Error ''AbortError'' ''The user aborted a request.''"

text \<open>
  A first message is sent, its \<^verbatim>\<open>fetch\<close> answers 200 with a body, and the first read
  delivers the delta \<^verbatim>\<open>Hi\<close>.
\<close>

definition first_session :: "occurrence list" where
  "first_session =
     [UserSend env1 (Some ''secret'') ''hello'',
      FetchSettled 0 (Inr \<lparr>ok = True, status = 200, has_reader = True\<rparr>),
      ReadSettled 0 (Value (data_line payload_Hi @ [CHR 0x0A]))]"

text \<open>
  Then the user stops the first call, whose read rejects at once, and sends a second
  message, whose \<^verbatim>\<open>fetch\<close> answers.
\<close>

definition restarted :: "occurrence list" where
  "restarted =
     first_session @
     [UserStop, ReadSettled 0 (Rejects abort_error),
      UserSend env1 (Some ''secret'') ''again'',
      FetchSettled 1 (Inr \<lparr>ok = True, status = 200, has_reader = True\<rparr>)]"

text \<open>
  The same, on a transport on which the read of the stopped call rejects only after the
  second message has been sent.
\<close>

definition restarted_early :: "occurrence list" where
  "restarted_early =
     first_session @
     [UserStop, UserSend env1 (Some ''secret'') ''again'',
      ReadSettled 0 (Rejects abort_error)]"

section \<open>Facts about the text primitives\<close>

lemma trim_not_data: "trim l \<noteq> ''data: ''"
proof
  assume a: "trim l = ''data: ''"
  define xs where "xs = dropWhile is_white_space (rev (dropWhile is_white_space l))"
  from a have "rev xs = ''data: ''" by (simp add: trim_def xs_def)
  then have "xs = rev ''data: ''" by (metis rev_rev_ident)
  then have h: "xs = CHR 0x20 # '':atad''" by simp
  have "xs \<noteq> [] \<Longrightarrow> \<not> is_white_space (hd xs)" unfolding xs_def by (rule hd_dropWhile)
  with h show False by (simp add: is_white_space_def)
qed

lemma trim_id:
  assumes "\<not> is_white_space (hd p)" and "\<not> is_white_space (last p)"
  shows "trim p = p"
proof (cases "p = []")
  case True
  then show ?thesis by (simp add: trim_def)
next
  case False
  with assms(1) have 1: "dropWhile is_white_space p = p"
    by (simp add: dropWhile_eq_self_iff)
  from False assms(2) have "\<not> is_white_space (hd (rev p))"
    by (simp add: hd_rev)
  then have 2: "dropWhile is_white_space (rev p) = rev p"
    by (simp add: dropWhile_eq_self_iff)
  show ?thesis by (simp add: trim_def 1 2)
qed

lemma split_newline_no_nl: "CHR 0x0A \<notin> set l \<Longrightarrow> split_newline l = [l]"
  by (induction l) auto

lemma split_newline_line:
  "CHR 0x0A \<notin> set l \<Longrightarrow> split_newline (l @ CHR 0x0A # rest) = l # split_newline rest"
  by (induction l) auto

lemma cons_first_append: "ys \<noteq> [] \<Longrightarrow> cons_first c (ys @ zs) = cons_first c ys @ zs"
  by (cases ys) simp_all

lemma split_newline_not_Nil [simp]: "split_newline s \<noteq> []"
  by (induction s) (auto simp: neq_Nil_conv elim: cons_first.elims)

lemma split_newline_boundary:
  "split_newline (a @ CHR 0x0A # b) = split_newline a @ split_newline b"
  by (induction a) (simp_all add: cons_first_append)

lemma concat_split_boundary:
  "concat (map split_newline (cs @ [c1, c2] @ cs')) =
   concat (map split_newline (cs @ [c1 @ CHR 0x0A # c2] @ cs'))"
  by (simp add: split_newline_boundary)

lemma decode_line_data:
  "decode_line ev (data_line p) =
     (if trim p = [] \<or> trim p = ''[DONE]'' then Skip
      else (case parse ev p of Inl err \<Rightarrow> Malformed err | Inr d \<Rightarrow> Frame d))"
  by (simp add: decode_line_def data_line_def startsWith_def slice_def trim_not_data)

section \<open>Facts about the loop body\<close>

lemma completions_append [simp]: "completions (xs @ ys) = completions xs @ completions ys"
  by (induction xs rule: completions.induct) simp_all

lemma updates_append [simp]: "updates (xs @ ys) = updates xs @ updates ys"
  by (induction xs rule: updates.induct) simp_all

lemma callbacks_append [simp]: "callbacks (xs @ ys) = callbacks xs @ callbacks ys"
  by (induction xs rule: callbacks.induct) simp_all

lemma emit_fields [simp]:
  "emitted (emit e st) = emitted st @ [e]"
  "aborted (emit e st) = aborted st"
  "abortControllerRef (emit e st) = abortControllerRef st"
  "allocated (emit e st) = allocated st"
  "isStreaming (emit e st) = isStreaming st"
  "streamingMessage (emit e st) = streamingMessage st"
  "streamingId (emit e st) = streamingId st"
  "accumulatedContent (emit e st) = accumulatedContent st"
  by (simp_all add: emit_def)

lemma process_line_Continue:
  assumes "process_line ev st l = (Continue, st')"
  shows "completions (emitted st') = completions (emitted st)"
    and "aborted st' = aborted st"
    and "abortControllerRef st' = abortControllerRef st"
    and "allocated st' = allocated st"
    and "isStreaming st' = isStreaming st"
  using assms
  by (auto simp: process_line_def process_frame_def Let_def
           split: decoded.splits if_splits)

lemma process_line_Return:
  assumes "process_line ev st l = (Return, st')"
  shows "\<exists>d. decode_line ev l = Frame d \<and> frame_type d = ''completion''"
    and "emitted st' = emitted st @
           [MessageComplete \<lparr>msg_id = toString (t_id ev), msg_role = assistant,
              msg_content = accumulatedContent st, msg_timestamp = t_ts ev\<rparr>]"
    and "aborted st' = aborted st"
    and "abortControllerRef st' = abortControllerRef st"
    and "allocated st' = allocated st"
    and "\<not> isStreaming st'"
    and "streamingMessage st' = []"
  using assms
  by (auto simp: process_line_def process_frame_def Let_def
           split: decoded.splits if_splits)

lemma process_lines_append:
  "process_lines ev st (xs @ ys) =
     (case process_lines ev st xs of
        (Return, st') \<Rightarrow> (Return, st')
      | (Continue, st') \<Rightarrow> process_lines ev st' ys)"
  by (induction xs arbitrary: st) (auto split: prod.splits control.splits)

text \<open>What the loop body does with a frame, branch by branch.\<close>

lemma process_line_frame:
  assumes "decode_line ev l = Frame d"
  shows "process_line ev st l =
     (if truthy (error_message d) then
        (Continue, logged_error (case error_message d of Some s \<Rightarrow> s | None \<Rightarrow> []) st)
      else if truthy (thread_id d) \<and> thread_id d \<noteq> chatId ev then (Continue, st)
      else if frame_type d = ''delta'' \<and> content d \<noteq> [] then (Continue, appended (content d) st)
      else if frame_type d = ''completion'' then (Return, settled ev st)
      else (Continue, st))"
  using assms
  by (simp add: process_line_def process_frame_def logged_error_def appended_def settled_def
        finalMessage_def Let_def)

lemma process_line_skip: "decode_line ev l = Skip \<Longrightarrow> process_line ev st l = (Continue, st)"
  by (simp add: process_line_def)

lemma process_line_malformed:
  "decode_line ev l = Malformed err \<Longrightarrow>
   process_line ev st l = (Continue, emit (ConsoleError ''Error parsing SSE data:'' err) st)"
  by (simp add: process_line_def)

lemma appended_fields [simp]:
  "accumulatedContent (appended c st) = accumulatedContent st @ c"
  "streamingMessage (appended c st) = accumulatedContent st @ c"
  "emitted (appended c st) = emitted st @ [StreamingUpdate (accumulatedContent st @ c)]"
  "aborted (appended c st) = aborted st"
  "abortControllerRef (appended c st) = abortControllerRef st"
  "isStreaming (appended c st) = isStreaming st"
  by (simp_all add: appended_def)

lemma settled_fields [simp]:
  "accumulatedContent (settled ev st) = accumulatedContent st"
  "streamingMessage (settled ev st) = []"
  "emitted (settled ev st) = emitted st @ [MessageComplete (finalMessage ev (accumulatedContent st))]"
  "aborted (settled ev st) = aborted st"
  "abortControllerRef (settled ev st) = abortControllerRef st"
  "isStreaming (settled ev st) = False"
  by (simp_all add: settled_def)

lemma process_line_matching_delta:
  assumes "decode_line ev l = Frame d" and "matching_delta ev d"
  shows "process_line ev st l = (Continue, if content d = [] then st else appended (content d) st)"
  using assms by (simp add: process_line_frame matching_delta_def)

lemma process_line_matching_completion:
  assumes "decode_line ev l = Frame d" and "matching_completion ev d"
  shows "process_line ev st l = (Return, settled ev st)"
  using assms by (simp add: process_line_frame matching_completion_def)

lemma deltas_lines:
  assumes "\<forall>d\<in>set (frames_of_lines ev ls). matching_delta ev d"
  shows "\<exists>st'. process_lines ev st ls = (Continue, st')
           \<and> accumulatedContent st' = accumulatedContent st @ concat (map content (frames_of_lines ev ls))
           \<and> (streamingMessage st = accumulatedContent st \<longrightarrow> streamingMessage st' = accumulatedContent st')
           \<and> completions (emitted st') = completions (emitted st)
           \<and> aborted st' = aborted st"
  using assms
proof (induction ls arbitrary: st)
  case Nil
  then show ?case by simp
next
  case (Cons l ls)
  show ?case
  proof (cases "decode_line ev l")
    case Skip
    with Cons show ?thesis by (simp add: process_line_skip)
  next
    case (Malformed err)
    with Cons.prems have p: "\<forall>d\<in>set (frames_of_lines ev ls). matching_delta ev d" by simp
    from Cons.IH [OF p, of "emit (ConsoleError ''Error parsing SSE data:'' err) st"] Malformed
    show ?thesis by (simp add: process_line_malformed)
  next
    case (Frame d)
    with Cons.prems have m: "matching_delta ev d"
      and p: "\<forall>d\<in>set (frames_of_lines ev ls). matching_delta ev d" by simp_all
    show ?thesis
    proof (cases "content d = []")
      case True
      with Cons.IH [OF p, of st] Frame m show ?thesis
        by (simp add: process_line_matching_delta)
    next
      case False
      with Cons.IH [OF p, of "appended (content d) st"] Frame m show ?thesis
        by (auto simp: process_line_matching_delta)
    qed
  qed
qed

lemma deltas_completion_lines:
  assumes "frames_of_lines ev ls = ds @ [c]"
    and "\<forall>d\<in>set ds. matching_delta ev d" and "matching_completion ev c"
  shows "\<exists>st'. process_lines ev st ls = (Return, st')
           \<and> accumulatedContent st' = accumulatedContent st @ concat (map content ds)
           \<and> completions (emitted st') = completions (emitted st) @
                [finalMessage ev (accumulatedContent st @ concat (map content ds))]
           \<and> last (emitted st') =
                MessageComplete (finalMessage ev (accumulatedContent st @ concat (map content ds)))"
  using assms
proof (induction ls arbitrary: st ds)
  case Nil
  then show ?case by simp
next
  case (Cons l ls)
  show ?case
  proof (cases "decode_line ev l")
    case Skip
    with Cons show ?thesis by (simp add: process_line_skip)
  next
    case (Malformed err)
    with Cons.prems have p: "frames_of_lines ev ls = ds @ [c]" by simp
    from Cons.IH [OF p Cons.prems(2,3), of "emit (ConsoleError ''Error parsing SSE data:'' err) st"] Malformed
    show ?thesis by (simp add: process_line_malformed)
  next
    case (Frame d)
    with Cons.prems have eq: "d # frames_of_lines ev ls = ds @ [c]" by simp
    show ?thesis
    proof (cases ds)
      case Nil
      with eq have "d = c" by simp
      with Frame Cons.prems(3) Nil show ?thesis
        by (simp add: process_line_matching_completion)
    next
      case (Cons d' ds')
      with eq have d: "d' = d" and p: "frames_of_lines ev ls = ds' @ [c]" by simp_all
      from Cons d Cons.prems(2) have m: "matching_delta ev d"
        and ms: "\<forall>d\<in>set ds'. matching_delta ev d" by simp_all
      show ?thesis
      proof (cases "content d = []")
        case True
        with Cons.IH [OF p ms Cons.prems(3), of st] Frame m Cons d show ?thesis
          by (simp add: process_line_matching_delta)
      next
        case False
        with Cons.IH [OF p ms Cons.prems(3), of "appended (content d) st"] Frame m Cons d
        show ?thesis
          by (simp add: process_line_matching_delta)
      qed
    qed
  qed
qed

lemma act_fields [simp]:
  "emitted (act a st) = emitted st"
  "abortControllerRef (act a st) = abortControllerRef st"
  "accumulatedContent (act a st) = accumulatedContent st"
  "allocated (act a st) = allocated st"
  "isStreaming (act a st) = False"
  "streamingMessage (act a st) = []"
  "aborted (act a st) = (case abortControllerRef st of Some c \<Rightarrow> insert c (aborted st) | None \<Rightarrow> aborted st)"
  by (cases a; simp add: handleStopGeneration_def chatId_effect_def split: option.splits)+

lemma process_lines_Continue_all:
  "process_lines ev st ls = (Continue, st') \<Longrightarrow>
   completions (emitted st') = completions (emitted st) \<and> aborted st' = aborted st
   \<and> abortControllerRef st' = abortControllerRef st \<and> allocated st' = allocated st
   \<and> isStreaming st' = isStreaming st"
proof (induction ls arbitrary: st)
  case Nil
  then show ?case by simp
next
  case (Cons l ls)
  obtain k st1 where p: "process_line ev st l = (k, st1)" by (cases "process_line ev st l")
  with Cons.prems have k: "k = Continue" and r: "process_lines ev st1 ls = (Continue, st')"
    by (auto split: control.splits)
  from p k have "process_line ev st l = (Continue, st1)" by simp
  from process_line_Continue [OF this] Cons.IH [OF r] show ?case by simp
qed

lemma process_lines_Continue:
  assumes "process_lines ev st ls = (Continue, st')"
  shows "completions (emitted st') = completions (emitted st)"
    and "aborted st' = aborted st"
    and "abortControllerRef st' = abortControllerRef st"
    and "allocated st' = allocated st"
    and "isStreaming st' = isStreaming st"
  using process_lines_Continue_all [OF assms] by simp_all

lemma read_loop_values:
  assumes "signal \<notin> aborted st"
  shows "read_loop ev signal st (map (\<lambda>c. ReadSettles (Value c)) chunks @ rest) =
     (case process_lines ev st (concat (map split_newline chunks)) of
        (Return, st') \<Rightarrow> (Returned, st')
      | (Continue, st') \<Rightarrow> read_loop ev signal st' rest)"
  using assms
proof (induction chunks arbitrary: st)
  case Nil
  then show ?case by simp
next
  case (Cons c cs)
  show ?case
  proof (cases "process_lines ev st (split_newline c)")
    case (Pair k st1)
    show ?thesis
    proof (cases k)
      case Continue
      with Pair Cons.prems have "signal \<notin> aborted st1"
        by (simp add: process_lines_Continue(2))
      from Cons.IH [OF this] Pair Continue Cons.prems show ?thesis
        by (simp add: process_lines_append)
    next
      case Return
      with Pair Cons.prems show ?thesis by (simp add: process_lines_append)
    qed
  qed
qed

lemma logged_error_fields [simp]:
  "accumulatedContent (logged_error m st) = accumulatedContent st"
  "streamingMessage (logged_error m st) = streamingMessage st"
  "isStreaming (logged_error m st) = isStreaming st"
  "callbacks (emitted (logged_error m st)) = callbacks (emitted st)"
  "completions (emitted (logged_error m st)) = completions (emitted st)"
  "updates (emitted (logged_error m st)) = updates (emitted st)"
  "aborted (logged_error m st) = aborted st"
  by (simp_all add: logged_error_def)

section \<open>Facts about the read loop and the call\<close>

lemma try_block_connected:
  "connected x \<Longrightarrow>
   try_block ev x signal st = read_loop ev signal (st\<lparr>accumulatedContent := []\<rparr>) (inputs x)"
  by (auto simp: connected_def try_block_def Let_def split: sum.splits)

lemma streamApiResponse_connected:
  "connected x \<Longrightarrow>
   streamApiResponse ev x st =
     catch_finally ev (read_loop ev (allocated st) (started ev st) (inputs x))"
  by (simp add: streamApiResponse_def try_block_connected started_def Let_def)

lemma started_fields [simp]:
  "allocated st \<notin> aborted (started ev st)"
  "accumulatedContent (started ev st) = []"
  "streamingMessage (started ev st) = []"
  "emitted (started ev st) = emitted st"
  "abortControllerRef (started ev st) = Some (allocated st)"
  "isStreaming (started ev st)"
  by (simp_all add: started_def)

lemma finally_fields [simp]:
  "emitted (finally_block st) = emitted st"
  "accumulatedContent (finally_block st) = accumulatedContent st"
  "isStreaming (finally_block st) = False"
  "streamingMessage (finally_block st) = []"
  "streamingId (finally_block st) = []"
  "abortControllerRef (finally_block st) = None"
  "aborted (finally_block st) = aborted st"
  by (simp_all add: finally_block_def)

lemma quiet_same: "emitted st' = emitted st \<Longrightarrow> quiet st st'"
  by (simp add: quiet_def)

lemma quiet_trans: "quiet a b \<Longrightarrow> quiet b c \<Longrightarrow> quiet a c"
  by (auto simp: quiet_def)

lemma quiet_closing: "quiet a b \<Longrightarrow> closing b c \<Longrightarrow> closing a c"
proof -
  assume "quiet a b" and "closing b c"
  then obtain es es' m where "emitted b = emitted a @ es" "completions es = []"
    "emitted c = emitted b @ es' @ [MessageComplete m]" "completions es' = []"
    by (auto simp: quiet_def closing_def)
  then have "emitted c = emitted a @ (es @ es') @ [MessageComplete m] \<and> completions (es @ es') = []"
    by simp
  then show "closing a c" unfolding closing_def by blast
qed

lemma closing_same: "closing a b \<Longrightarrow> emitted c = emitted b \<Longrightarrow> closing a c"
  by (simp add: closing_def)

lemma process_line_trace:
  "process_line ev st l = (k, st') \<Longrightarrow>
   (case k of Continue \<Rightarrow> quiet st st' | Return \<Rightarrow> closing st st')"
proof (cases "decode_line ev l")
  case Skip
  assume "process_line ev st l = (k, st')"
  with Skip show ?thesis by (auto simp: process_line_skip quiet_def)
next
  case (Malformed err)
  assume "process_line ev st l = (k, st')"
  with Malformed show ?thesis by (auto simp: process_line_malformed quiet_def)
next
  case (Frame d)
  assume "process_line ev st l = (k, st')"
  with Frame show ?thesis
    by (auto simp: process_line_frame quiet_def closing_def logged_error_def split: if_splits)
qed

lemma process_lines_trace:
  "process_lines ev st ls = (k, st') \<Longrightarrow>
   (case k of Continue \<Rightarrow> quiet st st' | Return \<Rightarrow> closing st st')"
proof (induction ls arbitrary: st)
  case Nil
  then show ?case by (auto simp: quiet_def)
next
  case (Cons l ls)
  obtain k1 st1 where p: "process_line ev st l = (k1, st1)" by (cases "process_line ev st l")
  show ?case
  proof (cases k1)
    case Continue
    with p process_line_trace [OF p] have q: "quiet st st1" by simp
    from Cons.prems p Continue have "process_lines ev st1 ls = (k, st')" by simp
    from Cons.IH [OF this] q show ?thesis
      by (cases k) (auto intro: quiet_trans quiet_closing)
  next
    case Return
    with p process_line_trace [OF p] Cons.prems show ?thesis by auto
  qed
qed

lemma act_quiet: "quiet st (act a st)"
  by (simp add: quiet_same)

lemma read_loop_trace:
  "read_loop ev signal st ins = (r, st') \<Longrightarrow>
   (if r = Returned then closing st st' else quiet st st')"
proof (induction ev signal st ins rule: read_loop.induct)
  case (1 ev signal st)
  then show ?case by (auto simp: quiet_def)
next
  case (2 ev signal st a ins)
  then show ?case
    by (auto split: if_splits intro: quiet_trans quiet_closing act_quiet)
next
  case (3 ev signal st e ins)
  then show ?case by (auto simp: quiet_def)
next
  case (4 ev signal st ins)
  then show ?case by (auto simp: quiet_def)
next
  case (5 ev signal st chunk ins)
  show ?case
  proof (cases "signal \<in> aborted st")
    case True
    with 5 show ?thesis by (auto simp: quiet_def)
  next
    case False
    obtain k st1 where p: "process_lines ev st (split_newline chunk) = (k, st1)"
      by (cases "process_lines ev st (split_newline chunk)")
    show ?thesis
    proof (cases k)
      case Continue
      with process_lines_trace [OF p] have q: "quiet st st1" by simp
      from 5(2) False p Continue have "read_loop ev signal st1 ins = (r, st')" by simp
      from 5(1) [OF False p [symmetric] Continue this] q show ?thesis
        by (auto split: if_splits intro: quiet_trans quiet_closing)
    next
      case Return
      with process_lines_trace [OF p] 5(2) False p show ?thesis by auto
    qed
  qed
qed

lemma fold_act_fields [simp]:
  "emitted (fold act as st) = emitted st"
  by (induction as arbitrary: st) simp_all

lemma try_block_trace:
  "try_block ev x signal st = (r, st') \<Longrightarrow>
   (if r = Returned then closing st st' else quiet st st')"
proof -
  assume a: "try_block ev x signal st = (r, st')"
  show ?thesis
  proof (cases "truthy (token x) \<and> (\<exists>resp. fetch_result x = Inr resp \<and> ok resp \<and> has_reader resp)")
    case True
    then obtain resp where f: "fetch_result x = Inr resp" "ok resp" "has_reader resp" by blast
    let ?s = "(fold act (during_fetch x) st)\<lparr>accumulatedContent := []\<rparr>"
    from True f a have "read_loop ev signal ?s (inputs x) = (r, st')"
      by (simp add: try_block_def Let_def)
    from read_loop_trace [OF this] have "if r = Returned then closing ?s st' else quiet ?s st'" .
    moreover have "quiet st ?s" by (simp add: quiet_same)
    ultimately show ?thesis by (auto split: if_splits intro: quiet_trans quiet_closing)
  next
    case False
    with a show ?thesis
      by (auto simp: try_block_def Let_def quiet_def split: if_splits sum.splits)
  qed
qed

lemma catch_block_trace:
  "(if reported e then closing st (catch_block ev e st) else emitted (catch_block ev e st) = emitted st)"
  by (auto simp: catch_block_def closing_def intro!: exI [of _ "[ConsoleError ''Streaming error:'' (message_of e)]"])

lemma read_loop_more:
  "read_loop ev signal st ins = (r, st') \<Longrightarrow> r \<noteq> Pending \<Longrightarrow>
   read_loop ev signal st (ins @ later) = (r, st')"
  by (induction ev signal st ins rule: read_loop.induct)
     (auto split: if_splits prod.splits control.splits)

lemma read_loop_Pending_more:
  "read_loop ev signal st ins = (Pending, s) \<Longrightarrow>
   read_loop ev signal st (ins @ later) = read_loop ev signal s later"
  by (induction ev signal st ins rule: read_loop.induct)
     (auto split: if_splits prod.splits control.splits)

lemma try_block_more:
  "try_block ev x signal st = (r, st') \<Longrightarrow> r \<noteq> Pending \<Longrightarrow>
   try_block ev (x\<lparr>inputs := inputs x @ later\<rparr>) signal st = (r, st')"
  by (auto simp: try_block_def Let_def read_loop_more split: if_splits sum.splits)

lemma catch_finally_exit: "catch_finally ev (r, s) = (r', s') \<Longrightarrow> r' = r"
  by (cases r) auto

lemma catch_finally_trace:
  assumes "if r = Returned then closing st s else quiet st s"
  shows "if terminal r then closing st (snd (catch_finally ev (r, s)))
         else quiet st (snd (catch_finally ev (r, s)))"
proof (cases r)
  case Returned
  with assms show ?thesis by (auto intro: closing_same)
next
  case Break
  with assms show ?thesis by (auto simp: quiet_def)
next
  case (Threw e)
  with assms have q: "quiet st s" by simp
  show ?thesis
  proof (cases "reported e")
    case True
    with catch_block_trace [of e s ev] have "closing s (catch_block ev e s)" by simp
    with q have "closing st (catch_block ev e s)" by (rule quiet_closing)
    with Threw True show ?thesis by (auto intro: closing_same)
  next
    case False
    with catch_block_trace [of e s ev] have "emitted (catch_block ev e s) = emitted s" by simp
    with q Threw False show ?thesis by (auto simp: quiet_def)
  qed
next
  case Pending
  with assms show ?thesis by simp
qed

lemma act_aborts: "abortControllerRef st = Some c \<Longrightarrow> c \<in> aborted (act a st)"
  by simp

lemma act_aborted_mono: "c \<in> aborted st \<Longrightarrow> c \<in> aborted (act a st)"
  by (simp split: option.splits)

lemma fold_act_ref [simp]: "abortControllerRef (fold act as st) = abortControllerRef st"
  by (induction as arbitrary: st) simp_all

lemma fold_act_aborted_mono: "c \<in> aborted st \<Longrightarrow> c \<in> aborted (fold act as st)"
proof (induction as arbitrary: st)
  case Nil
  then show ?case by simp
next
  case (Cons a as)
  from Cons.prems have "c \<in> aborted (act a st)" by (rule act_aborted_mono)
  from Cons.IH [OF this] show ?case by simp
qed

lemma fold_act_aborts:
  "as \<noteq> [] \<Longrightarrow> abortControllerRef st = Some c \<Longrightarrow> c \<in> aborted (fold act as st)"
proof (cases as)
  case Nil
  assume "as \<noteq> []"
  with Nil show ?thesis by simp
next
  case (Cons a as')
  assume "abortControllerRef st = Some c"
  then have "c \<in> aborted (act a st)" by (rule act_aborts)
  then have "c \<in> aborted (fold act as' (act a st))" by (rule fold_act_aborted_mono)
  with Cons show ?thesis by simp
qed

lemma fold_act_off:
  "as \<noteq> [] \<Longrightarrow> \<not> isStreaming (fold act as st) \<and> streamingMessage (fold act as st) = []"
proof (induction as arbitrary: st)
  case Nil
  then show ?case by simp
next
  case (Cons a as)
  then show ?case by (cases as) simp_all
qed

lemma read_loop_aborted:
  assumes "signal \<in> aborted st" and "read_loop ev signal st ins = (r, st')"
  shows "emitted st' = emitted st \<and> signal \<in> aborted st' \<and> r \<noteq> Returned
       \<and> (\<forall>e. r = Threw e \<longrightarrow> ReadSettles (Rejects e) \<in> set ins)
       \<and> (\<not> isStreaming st \<longrightarrow> \<not> isStreaming st')
       \<and> (streamingMessage st = [] \<longrightarrow> streamingMessage st' = [])"
  using assms
proof (induction ev signal st ins rule: read_loop.induct)
  case (2 ev signal st a ins)
  from 2(2) have "signal \<in> aborted (act a st)" by (rule act_aborted_mono)
  moreover from 2(3) have "read_loop ev signal (act a st) ins = (r, st')" by simp
  ultimately have "emitted st' = emitted (act a st) \<and> signal \<in> aborted st' \<and> r \<noteq> Returned
       \<and> (\<forall>e. r = Threw e \<longrightarrow> ReadSettles (Rejects e) \<in> set ins)
       \<and> (\<not> isStreaming (act a st) \<longrightarrow> \<not> isStreaming st')
       \<and> (streamingMessage (act a st) = [] \<longrightarrow> streamingMessage st' = [])"
    by (rule 2(1))
  then show ?case by simp
qed (auto split: if_splits)

lemma no_completion_lines:
  assumes "\<forall>d\<in>set (frames_of_lines ev ls). frame_type d \<noteq> ''completion''"
  shows "\<exists>st'. process_lines ev st ls = (Continue, st')"
  using assms
proof (induction ls arbitrary: st)
  case Nil
  then show ?case by simp
next
  case (Cons l ls)
  obtain k st1 where p: "process_line ev st l = (k, st1)" by (cases "process_line ev st l")
  show ?case
  proof (cases k)
    case Continue
    from Cons.prems have "\<forall>d\<in>set (frames_of_lines ev ls). frame_type d \<noteq> ''completion''"
      by (cases "decode_line ev l") simp_all
    from Cons.IH [OF this, of st1] p Continue show ?thesis by simp
  next
    case Return
    with p process_line_Return(1) [of ev st l st1] obtain d where
      "decode_line ev l = Frame d" "frame_type d = ''completion''" by auto
    with Cons.prems show ?thesis by simp
  qed
qed

lemma cancel_while_fetching:
  assumes "truthy (token x)" and "during_fetch x \<noteq> []" and "fetch_result x = Inl e0"
    and "\<not> reported e0"
  shows "\<exists>st'. streamApiResponse ev x st = (Threw e0, st') \<and> emitted st' = emitted st
           \<and> \<not> isStreaming st' \<and> streamingMessage st' = [] \<and> allocated st \<in> aborted st'"
proof -
  let ?st0 = "st\<lparr>isStreaming := True, streamingMessage := [],
                   streamingId := ''streaming-'' @ toString (t_start ev),
                   abortControllerRef := Some (allocated st),
                   aborted := aborted st - {allocated st},
                   allocated := Suc (allocated st)\<rparr>"
  have "abortControllerRef ?st0 = Some (allocated st)" by simp
  with assms(2) have "allocated st \<in> aborted (fold act (during_fetch x) ?st0)"
    by (rule fold_act_aborts)
  with assms show ?thesis
    by (simp add: streamApiResponse_def try_block_def Let_def catch_block_def)
qed

lemma cancel_while_reading:
  assumes "connected x" and "inputs x = chunk_reads chunks @ Action a # post"
    and "\<forall>d\<in>set (frames_of_chunks ev chunks). frame_type d \<noteq> ''completion''"
    and "\<forall>e. ReadSettles (Rejects e) \<in> set post \<longrightarrow> \<not> reported e"
  shows "\<exists>r st' s. streamApiResponse ev x st = (r, st')
           \<and> streamApiResponse ev (x\<lparr>inputs := chunk_reads chunks\<rparr>) st = (Pending, s)
           \<and> emitted st' = emitted s
           \<and> completions (emitted s) = completions (emitted st)
           \<and> \<not> terminal r
           \<and> \<not> isStreaming st' \<and> streamingMessage st' = [] \<and> allocated st \<in> aborted st'"
proof -
  let ?sig = "allocated st"
  from assms(3) obtain s where
    p: "process_lines ev (started ev st) (concat (map split_newline chunks)) = (Continue, s)"
    using no_completion_lines [of ev "concat (map split_newline chunks)" "started ev st"]
    by (auto simp: frames_of_chunks_def)
  have na: "?sig \<notin> aborted (started ev st)" by simp
  have 1: "read_loop ev ?sig (started ev st) (chunk_reads chunks @ []) = (Pending, s)"
    unfolding chunk_reads_def by (subst read_loop_values [OF na]) (simp add: p)
  have 2: "read_loop ev ?sig (started ev st) (chunk_reads chunks @ Action a # post) =
           read_loop ev ?sig (act a s) post"
    unfolding chunk_reads_def by (subst read_loop_values [OF na]) (simp add: p)
  from assms(1) have c: "connected (x\<lparr>inputs := chunk_reads chunks\<rparr>)"
    by (simp add: connected_def)
  from 1 c have pend: "streamApiResponse ev (x\<lparr>inputs := chunk_reads chunks\<rparr>) st = (Pending, s)"
    by (simp add: streamApiResponse_connected)
  from p have ref: "abortControllerRef s = Some ?sig"
    and comp: "completions (emitted s) = completions (emitted st)"
    by (simp_all add: process_lines_Continue)
  from ref have ab: "?sig \<in> aborted (act a s)" by (rule act_aborts)
  obtain r s' where rl: "read_loop ev ?sig (act a s) post = (r, s')"
    by (cases "read_loop ev ?sig (act a s) post")
  from read_loop_aborted [OF ab rl]
  have e: "emitted s' = emitted s" and ab': "?sig \<in> aborted s'" and nr: "r \<noteq> Returned"
    and th: "\<forall>e. r = Threw e \<longrightarrow> ReadSettles (Rejects e) \<in> set post"
    and off: "\<not> isStreaming s'" "streamingMessage s' = []"
    by simp_all
  from th assms(4) have nt: "\<not> terminal r" using nr by (cases r) auto
  from assms(1,2) 2 rl have run: "streamApiResponse ev x st = catch_finally ev (r, s')"
    by (simp add: streamApiResponse_connected)
  show ?thesis
  proof (cases r)
    case Returned
    with nr show ?thesis by simp
  next
    case Break
    with run pend e comp nt ab' show ?thesis by simp
  next
    case (Threw e1)
    with nt have "\<not> reported e1" by simp
    with Threw run pend e comp nt ab' show ?thesis by (simp add: catch_block_def)
  next
    case Pending
    with run pend e comp nt ab' off show ?thesis by simp
  qed
qed

section \<open>Facts about several calls\<close>

lemma one_live_unique:
  assumes "one_live s" and "calls s c = Some k" and "c' \<noteq> c"
  shows "calls s c' = None"
proof (cases "calls s c'")
  case None
  then show ?thesis .
next
  case (Some k')
  with assms(1) have "abortControllerRef (shared s) = Some c'" by (simp add: one_live_def)
  moreover from assms(1,2) have "abortControllerRef (shared s) = Some c" by (simp add: one_live_def)
  ultimately show ?thesis using assms(3) by simp
qed

lemma one_live_down: "one_live s \<Longrightarrow> \<not> isStreaming (shared s) \<Longrightarrow> calls s c = None"
  by (cases "calls s c") (auto simp: one_live_def)

lemma one_live_cancelled_call:
  "one_live s \<Longrightarrow> calls s c = Some k \<Longrightarrow> cancelled_call s = Some (c, k)"
  by (simp add: one_live_def cancelled_call_def)

lemma one_live_nothing_to_cancel:
  "one_live s \<Longrightarrow> cancelled_call s = None \<Longrightarrow> calls s c = None"
  by (cases "calls s c") (simp_all add: one_live_cancelled_call)

lemma enter_fields [simp]:
  "isStreaming (enter ev st)"
  "abortControllerRef (enter ev st) = Some (allocated st)"
  "allocated st \<notin> aborted (enter ev st)"
  "emitted (enter ev st) = emitted st"
  by (simp_all add: enter_def)

lemma one_live_send: "one_live s \<Longrightarrow> one_live (send ev tok message s)"
proof -
  assume i: "one_live s"
  show ?thesis
  proof (cases "trim message = [] \<or> isStreaming (shared s)")
    case True
    with i show ?thesis by (simp add: send_def)
  next
    case False
    then have "\<And>c. calls s c = None" using i by (simp add: one_live_down)
    with False show ?thesis
      by (auto simp: send_def Let_def one_live_def enter_def)
  qed
qed

lemma try_block_fetching:
  "try_block ev (fetching tok res) c st = (Pending, st') \<Longrightarrow>
   st' = st\<lparr>accumulatedContent := []\<rparr>"
  by (auto simp: try_block_def fetching_def Let_def split: if_splits sum.splits)

lemma one_live_fetch_settled: "one_live s \<Longrightarrow> one_live (fetch_settled c res s)"
proof -
  assume i: "one_live s"
  show ?thesis
  proof (cases "calls s c")
    case None
    with i show ?thesis by (simp add: fetch_settled_def)
  next
    case (Some k)
    note k = Some
    show ?thesis
    proof (cases "awaits k")
      case Read
      with i k show ?thesis by (simp add: fetch_settled_def)
    next
      case Fetch
      obtain r st where t: "try_block (call_env k) (fetching (call_token k) res) c (shared s) = (r, st)"
        by (cases "try_block (call_env k) (fetching (call_token k) res) c (shared s)")
      show ?thesis
      proof (cases "r = Pending")
        case True
        with t have "st = (shared s)\<lparr>accumulatedContent := []\<rparr>" by (simp add: try_block_fetching)
        with i k Fetch t True one_live_unique [OF i k] show ?thesis
          by (auto simp: fetch_settled_def one_live_def)
      next
        case False
        have "\<And>c'. ((calls s)(c := None)) c' = None"
          using one_live_unique [OF i k] by simp
        with k Fetch t False show ?thesis
          by (simp add: fetch_settled_def one_live_def)
      qed
    qed
  qed
qed

lemma read_loop_one:
  "read_loop ev c st [ReadSettles res] = (Pending, st') \<Longrightarrow>
   isStreaming st' = isStreaming st \<and> abortControllerRef st' = abortControllerRef st
   \<and> aborted st' = aborted st"
  by (cases res) (auto simp: process_lines_Continue split: if_splits prod.splits control.splits)

lemma one_live_read_settled: "one_live s \<Longrightarrow> one_live (read_settled c res s)"
proof -
  assume i: "one_live s"
  show ?thesis
  proof (cases "calls s c")
    case None
    with i show ?thesis by (simp add: read_settled_def)
  next
    case (Some k)
    note k = Some
    show ?thesis
    proof (cases "awaits k")
      case Fetch
      with i k show ?thesis by (simp add: read_settled_def)
    next
      case Read
      obtain r st where t: "read_loop (call_env k) c
          ((shared s)\<lparr>accumulatedContent := call_content k\<rparr>) [ReadSettles res] = (r, st)"
        by (cases "read_loop (call_env k) c
          ((shared s)\<lparr>accumulatedContent := call_content k\<rparr>) [ReadSettles res]")
      show ?thesis
      proof (cases "r = Pending")
        case True
        with t read_loop_one [of "call_env k" c _ res st]
        have "isStreaming st = isStreaming (shared s)"
          "abortControllerRef st = abortControllerRef (shared s)" "aborted st = aborted (shared s)"
          by auto
        with i k Read t True one_live_unique [OF i k] show ?thesis
          by (auto simp: read_settled_def one_live_def)
      next
        case False
        have "\<And>c'. ((calls s)(c := None)) c' = None"
          using one_live_unique [OF i k] by simp
        with k Read t False show ?thesis
          by (simp add: read_settled_def one_live_def)
      qed
    qed
  qed
qed

lemma one_live_occur: "\<not> cancels e \<Longrightarrow> one_live s \<Longrightarrow> one_live (occur e s)"
  by (cases e) (simp_all add: one_live_send one_live_fetch_settled one_live_read_settled)

lemma cancels_act: "cancels e \<Longrightarrow> \<exists>a. occur e s = s\<lparr>shared := act a (shared s)\<rparr>"
proof (cases e)
  case UserStop
  have "occur UserStop s = s\<lparr>shared := act StopClicked (shared s)\<rparr>" by simp
  with UserStop show ?thesis by blast
next
  case UserChatChange
  have "occur UserChatChange s = s\<lparr>shared := act ChatChanged (shared s)\<rparr>" by simp
  with UserChatChange show ?thesis by blast
qed simp_all

lemma one_live_idle_cancel:
  assumes "one_live s" and "cancelled_call s = None" and "cancels e"
  shows "one_live (occur e s)"
proof -
  from cancels_act [OF assms(3)] obtain a where "occur e s = s\<lparr>shared := act a (shared s)\<rparr>" ..
  with one_live_nothing_to_cancel [OF assms(1,2)] show ?thesis by (simp add: one_live_def)
qed

lemma aborts_catch_block: "aborts e \<Longrightarrow> catch_block ev e st = st"
  by (cases e) (simp_all add: catch_block_def)

lemma settles_aborted_cases:
  "settles_aborted c k e \<Longrightarrow>
   \<exists>t. aborts t \<and> (awaits k = Fetch \<and> e = FetchSettled c (Inl t)
                    \<or> awaits k = Read \<and> e = ReadSettled c (Rejects t))"
  by (induction c k e rule: settles_aborted.induct) simp_all

lemma settles_aborted_ends:
  assumes "calls s c = Some k" and "truthy (call_token k)" and "settles_aborted c k e"
  shows "calls (occur e s) = (calls s)(c := None)"
    and "emitted (shared (occur e s)) = emitted (shared s)"
    and "aborted (shared (occur e s)) = aborted (shared s)"
    and "\<not> isStreaming (shared (occur e s))"
    and "abortControllerRef (shared (occur e s)) = None"
proof -
  from settles_aborted_cases [OF assms(3)] obtain t where t: "aborts t"
    and e: "awaits k = Fetch \<and> e = FetchSettled c (Inl t)
          \<or> awaits k = Read \<and> e = ReadSettled c (Rejects t)"
    by blast
  from e assms(1,2) t
  have "calls (occur e s) = (calls s)(c := None)
      \<and> emitted (shared (occur e s)) = emitted (shared s)
      \<and> aborted (shared (occur e s)) = aborted (shared s)
      \<and> \<not> isStreaming (shared (occur e s))
      \<and> abortControllerRef (shared (occur e s)) = None"
    by (auto simp: fetch_settled_def read_settled_def try_block_def fetching_def
          aborts_catch_block finally_block_def Let_def)
  then show "calls (occur e s) = (calls s)(c := None)"
    and "emitted (shared (occur e s)) = emitted (shared s)"
    and "aborted (shared (occur e s)) = aborted (shared s)"
    and "\<not> isStreaming (shared (occur e s))"
    and "abortControllerRef (shared (occur e s)) = None"
    by simp_all
qed

lemma cancel_live:
  assumes "one_live s" and "calls s c = Some k" and "cancels e" and "settles_aborted c k e'"
  shows "calls (occur e' (occur e s)) = Map.empty"
    and "c \<in> aborted (shared (occur e' (occur e s)))"
    and "emitted (shared (occur e' (occur e s))) = emitted (shared s)"
    and "\<not> isStreaming (shared (occur e' (occur e s)))"
proof -
  from assms(1,2) have ref: "abortControllerRef (shared s) = Some c"
    and tok: "truthy (call_token k)"
    by (simp_all add: one_live_def)
  from cancels_act [OF assms(3)] obtain a where o: "occur e s = s\<lparr>shared := act a (shared s)\<rparr>" ..
  let ?s = "s\<lparr>shared := act a (shared s)\<rparr>"
  from assms(2) have k: "calls ?s c = Some k" by simp
  note ends = settles_aborted_ends [OF k tok assms(4)]
  have "(calls s)(c := None) = Map.empty"
  proof
    fix c'
    show "((calls s)(c := None)) c' = Map.empty c'"
      using one_live_unique [OF assms(1,2), of c'] by simp
  qed
  with ends(1) show "calls (occur e' (occur e s)) = Map.empty" by (simp add: o)
  from ends(3) ref show "c \<in> aborted (shared (occur e' (occur e s)))" by (simp add: o)
  from ends(2) show "emitted (shared (occur e' (occur e s))) = emitted (shared s)"
    by (simp add: o)
  from ends(4) show "\<not> isStreaming (shared (occur e' (occur e s)))" by (simp add: o)
qed

lemma one_live_fold: "prompt_cancel s es \<Longrightarrow> one_live s \<Longrightarrow> one_live (fold occur es s)"
proof (induction s es rule: prompt_cancel.induct)
  case (1 s)
  then show ?case by simp
next
  case (2 s e)
  then show ?case
    by (cases "cancels e") (simp_all add: one_live_idle_cancel one_live_occur)
next
  case (3 s e e' es)
  show ?case
  proof (cases "if cancels e then cancelled_call s else None")
    case None
    with 3 have "one_live (occur e s)"
      by (cases "cancels e") (simp_all add: one_live_idle_cancel one_live_occur)
    with 3 None show ?thesis by simp
  next
    case (Some p)
    obtain c k where p: "p = (c, k)" by (cases p)
    from Some p have ce: "cancels e" and cc: "cancelled_call s = Some (c, k)"
      by (simp_all split: if_splits)
    from cc have k: "calls s c = Some k"
      by (simp add: cancelled_call_def split: option.splits)
    from "3.prems"(1) Some p have sa: "settles_aborted c k e'"
      and pc: "prompt_cancel (occur e' (occur e s)) es"
      by simp_all
    from cancel_live(1) [OF "3.prems"(2) k ce sa]
    have "one_live (occur e' (occur e s))" by (simp add: one_live_def)
    from "3.IH"(2) [OF Some p [symmetric] pc this] show ?thesis by simp
  qed
qed

lemma one_live_history: "prompt_cancel (mounted st) es \<Longrightarrow> one_live (history st es)"
  unfolding history_def by (rule one_live_fold) (simp_all add: one_live_def mounted_def)

lemma prompt_cancel_append:
  "prompt_cancel s es \<Longrightarrow> prompt_cancel (fold occur es s) later \<Longrightarrow>
   prompt_cancel s (es @ later)"
proof (induction s es rule: prompt_cancel.induct)
  case (1 s)
  then show ?case by simp
next
  case (2 s e)
  then show ?case by (cases later) (simp_all split: if_splits)
next
  case (3 s e e' es)
  then show ?case by (auto split: if_splits option.splits)
qed

lemma catch_finally_updates:
  "updates (emitted (snd (catch_finally ev (r, st)))) = updates (emitted st)"
  by (cases r) (simp_all add: catch_block_def finally_block_def emit_def)

lemma aborted_read_settled:
  assumes "c \<in> aborted (shared s)"
  shows "updates (emitted (shared (read_settled c r s))) = updates (emitted (shared s))"
proof (cases "calls s c")
  case None
  then show ?thesis by (simp add: read_settled_def)
next
  case (Some k)
  show ?thesis
  proof (cases "awaits k")
    case Fetch
    with Some show ?thesis by (simp add: read_settled_def)
  next
    case Read
    with Some assms show ?thesis
      by (cases r) (simp_all add: read_settled_def catch_block_def finally_block_def emit_def)
  qed
qed

lemma fetch_settled_updates:
  "updates (emitted (shared (fetch_settled c res s))) = updates (emitted (shared s))"
proof (cases "calls s c")
  case None
  then show ?thesis by (simp add: fetch_settled_def)
next
  case (Some k)
  show ?thesis
  proof (cases "awaits k")
    case Read
    with Some show ?thesis by (simp add: fetch_settled_def)
  next
    case Fetch
    obtain x st where t: "try_block (call_env k) (fetching (call_token k) res) c (shared s) = (x, st)"
      by (cases "try_block (call_env k) (fetching (call_token k) res) c (shared s)")
    then have "emitted st = emitted (shared s)"
      by (auto simp: try_block_def fetching_def Let_def split: if_splits sum.splits)
    with Some Fetch t show ?thesis
      by (simp add: fetch_settled_def catch_finally_updates)
  qed
qed

lemma history_append: "history st (es @ later) = fold occur later (history st es)"
  by (simp add: history_def)

text \<open>
  One call that nothing disturbs goes through the component as \<^verbatim>\<open>handleSendMessage\<close> runs it
  in one piece.
\<close>

lemma fold_settled_ended:
  "calls s c = None \<Longrightarrow> fold occur (map (ReadSettled c) rs) s = s"
  by (induction rs) (simp_all add: read_settled_def)

lemma reads_of_one_call:
  assumes "calls s = [c \<mapsto> k]" and "awaits k = Read" and "call_env k = ev"
    and "call_content k = accumulatedContent (shared s)"
  shows "shared (fold occur (map (ReadSettled c) rs) s) =
           snd (catch_finally ev (read_loop ev c (shared s) (map ReadSettles rs)))"
  using assms
proof (induction rs arbitrary: s k)
  case Nil
  then show ?case by simp
next
  case (Cons r rs)
  from Cons.prems have st: "(shared s)\<lparr>accumulatedContent := call_content k\<rparr> = shared s"
    by simp
  obtain x st' where one: "read_loop ev c (shared s) [ReadSettles r] = (x, st')"
    by (cases "read_loop ev c (shared s) [ReadSettles r]")
  show ?case
  proof (cases "x = Pending")
    case True
    let ?k = "k\<lparr>call_content := accumulatedContent st'\<rparr>"
    let ?s = "s\<lparr>shared := st', calls := (calls s)(c \<mapsto> ?k)\<rparr>"
    from Cons.prems one True st have step: "read_settled c r s = ?s"
      by (simp add: read_settled_def)
    have "calls ?s = (calls s)(c \<mapsto> ?k)" by simp
    also have "\<dots> = [c \<mapsto> ?k]" unfolding Cons.prems(1) by (rule fun_upd_upd)
    finally have c1: "calls ?s = [c \<mapsto> ?k]" .
    from Cons.prems(2,3) have c2: "awaits ?k = Read" and c3: "call_env ?k = ev" by simp_all
    have c4: "call_content ?k = accumulatedContent (shared ?s)" by simp
    from Cons.IH [OF c1 c2 c3 c4]
    have "shared (fold occur (map (ReadSettled c) rs) ?s) =
          snd (catch_finally ev (read_loop ev c st' (map ReadSettles rs)))"
      by simp
    moreover from one [unfolded True]
    have "read_loop ev c (shared s) ([ReadSettles r] @ map ReadSettles rs) =
          read_loop ev c st' (map ReadSettles rs)"
      by (rule read_loop_Pending_more)
    ultimately show ?thesis by (simp add: step)
  next
    case False
    let ?s = "s\<lparr>shared := snd (catch_finally ev (x, st')), calls := (calls s)(c := None)\<rparr>"
    from Cons.prems one False st have step: "read_settled c r s = ?s"
      by (simp add: read_settled_def)
    have "calls ?s c = None" by simp
    then have "fold occur (map (ReadSettled c) rs) ?s = ?s" by (rule fold_settled_ended)
    moreover from one False
    have "read_loop ev c (shared s) ([ReadSettles r] @ map ReadSettles rs) = (x, st')"
      by (rule read_loop_more)
    ultimately show ?thesis by (simp add: step)
  qed
qed

lemma try_block_split:
  "try_block ev \<lparr>token = tok, during_fetch = [], fetch_result = res, inputs = ins\<rparr> c st =
     (case try_block ev (fetching tok res) c st of
        (Pending, st') \<Rightarrow> read_loop ev c st' ins
      | (Threw e, st') \<Rightarrow> (Threw e, st')
      | (Returned, st') \<Rightarrow> (Returned, st')
      | (Break, st') \<Rightarrow> (Break, st'))"
  by (simp add: try_block_def fetching_def Let_def split: sum.splits)

lemma history_of_one_call:
  assumes "trim message \<noteq> []" and "\<not> isStreaming st" and "truthy tok"
  shows "shared (history st (UserSend ev tok message # FetchSettled (allocated st) res #
                              map (ReadSettled (allocated st)) rs)) =
         snd (handleSendMessage ev
                \<lparr>token = tok, during_fetch = [], fetch_result = res, inputs = map ReadSettles rs\<rparr>
                st message)"
proof -
  let ?c = "allocated st"
  let ?st0 = "enter ev (emit (SendMessage message) st)"
  let ?k = "\<lparr>call_env = ev, call_token = tok, awaits = Fetch, call_content = []\<rparr>"
  let ?s1 = "\<lparr>shared = ?st0, calls = [?c \<mapsto> ?k]\<rparr>"
  from assms have s1: "send ev tok message (mounted st) = ?s1"
    by (simp add: send_def mounted_def Let_def)
  obtain x st' where t: "try_block ev (fetching tok res) ?c ?st0 = (x, st')"
    by (cases "try_block ev (fetching tok res) ?c ?st0")
  from assms have "snd (handleSendMessage ev
                \<lparr>token = tok, during_fetch = [], fetch_result = res, inputs = map ReadSettles rs\<rparr>
                st message) =
             snd (streamApiResponse ev
                \<lparr>token = tok, during_fetch = [], fetch_result = res, inputs = map ReadSettles rs\<rparr>
                (emit (SendMessage message) st))"
    by (simp add: handleSendMessage_def split_beta)
  also have "\<dots> = snd (catch_finally ev
                (try_block ev
                   \<lparr>token = tok, during_fetch = [], fetch_result = res, inputs = map ReadSettles rs\<rparr>
                   ?c ?st0))"
    by (simp add: streamApiResponse_def enter_def Let_def)
  finally have big: "snd (handleSendMessage ev
                \<lparr>token = tok, during_fetch = [], fetch_result = res, inputs = map ReadSettles rs\<rparr>
                st message) =
             snd (catch_finally ev (case (x, st') of
                (Pending, st') \<Rightarrow> read_loop ev ?c st' (map ReadSettles rs)
              | (Threw e, st') \<Rightarrow> (Threw e, st')
              | (Returned, st') \<Rightarrow> (Returned, st')
              | (Break, st') \<Rightarrow> (Break, st')))"
    unfolding try_block_split t .
  show ?thesis
  proof (cases "x = Pending")
    case True
    let ?k2 = "?k\<lparr>awaits := Read, call_content := accumulatedContent st'\<rparr>"
    let ?s2 = "\<lparr>shared = st', calls = [?c \<mapsto> ?k2]\<rparr>"
    from t True have s2: "fetch_settled ?c res ?s1 = ?s2"
      by (simp add: fetch_settled_def)
    have "shared (fold occur (map (ReadSettled ?c) rs) ?s2) =
           snd (catch_finally ev (read_loop ev ?c (shared ?s2) (map ReadSettles rs)))"
      by (rule reads_of_one_call [where k = ?k2]) simp_all
    with True show ?thesis
      by (simp add: history_def s1 s2 big)
  next
    case False
    let ?s2 = "\<lparr>shared = snd (catch_finally ev (x, st')), calls = Map.empty\<rparr>"
    from t False have s2: "fetch_settled ?c res ?s1 = ?s2"
      by (simp add: fetch_settled_def)
    have "fold occur (map (ReadSettled ?c) rs) ?s2 = ?s2"
      by (rule fold_settled_ended) simp
    with False show ?thesis
      by (cases x) (simp_all add: history_def s1 s2 big)
  qed
qed

section \<open>Facts about the text decoder\<close>

lemma bom_handler: "bom_seen (snd (utf8_handler d b)) = bom_seen d"
  by (simp add: utf8_handler_def lead_byte_def reset_def Let_def split_beta)

lemma handler_bom_indep:
  "utf8_handler (d\<lparr>bom_seen := s\<rparr>) b =
     (fst (utf8_handler d b), (snd (utf8_handler d b))\<lparr>bom_seen := s\<rparr>)"
  by (simp add: utf8_handler_def lead_byte_def reset_def Let_def split_beta)

lemma decode_bytes_bom_indep:
  "decode_bytes (d\<lparr>bom_seen := s\<rparr>) bs =
     (fst (decode_bytes d bs), (snd (decode_bytes d bs))\<lparr>bom_seen := s\<rparr>)"
proof (induction bs arbitrary: d)
  case Nil
  then show ?case by simp
next
  case (Cons b bs)
  show ?case
    by (simp add: handler_bom_indep Cons.IH split_beta)
qed

lemma decode_bytes_bom: "bom_seen (snd (decode_bytes d bs)) = bom_seen d"
proof (induction bs arbitrary: d)
  case Nil
  then show ?case by simp
next
  case (Cons b bs)
  from Cons.IH [of "snd (utf8_handler d b)"] bom_handler [of d b]
  show ?case by (simp add: split_beta)
qed

lemma decode_bytes_append:
  "decode_bytes d (xs @ ys) =
     (fst (decode_bytes d xs) @ fst (decode_bytes (snd (decode_bytes d xs)) ys),
      snd (decode_bytes (snd (decode_bytes d xs)) ys))"
  by (induction xs arbitrary: d) (simp_all add: split_beta)

lemma serialize_append:
  "serialize s (xs @ ys) =
     (fst (serialize s xs) @ fst (serialize (snd (serialize s xs)) ys),
      snd (serialize (snd (serialize s xs)) ys))"
  by (cases s; cases xs; cases ys) simp_all

lemma decode_append:
  "decode d (xs @ ys) =
     (fst (decode d xs) @ fst (decode (snd (decode d xs)) ys), snd (decode (snd (decode d xs)) ys))"
  by (simp add: decode_def split_beta decode_bytes_append serialize_append decode_bytes_bom_indep
        decode_bytes_bom)

lemma decode_Nil: "decode d [] = ([], d)"
  by (cases "bom_seen d") (simp_all add: decode_def)

lemma decode_chunks_concat:
  "(concat (fst (decode_chunks d chunks)), snd (decode_chunks d chunks)) = decode d (concat chunks)"
proof (induction chunks arbitrary: d)
  case Nil
  then show ?case by (simp add: decode_Nil)
next
  case (Cons v vs)
  from Cons.IH [of "snd (decode d v)"] have
    "concat (fst (decode_chunks (snd (decode d v)) vs)) = fst (decode (snd (decode d v)) (concat vs))"
    and "snd (decode_chunks (snd (decode d v)) vs) = snd (decode (snd (decode d v)) (concat vs))"
    by (simp_all add: prod_eq_iff)
  then show ?case
    by (simp add: decode_append split_beta)
qed

lemma euro_pieces:
  "decode new_TextDecoder [0xE2] =
     ([], \<lparr>code_point = 2, bytes_seen = 0, bytes_needed = 2, lower_boundary = 0x80,
           upper_boundary = 0xBF, bom_seen = False\<rparr>)"
  "decode \<lparr>code_point = 2, bytes_seen = 0, bytes_needed = 2, lower_boundary = 0x80,
           upper_boundary = 0xBF, bom_seen = False\<rparr> [0x82, 0xAC] =
     ([0x20AC], new_TextDecoder\<lparr>bom_seen := True\<rparr>)"
  by (simp_all add: decode_def new_TextDecoder_def utf8_handler_def lead_byte_def reset_def)

section \<open>Facts about the concrete streams\<close>

lemma toString_clock: "toString 5 = ''5''" "toString 6 = ''6''"
  by (simp_all add: toString.simps digit_def)

lemmas env1_simps = env1_def toString_clock

lemmas payload_defs =
  payload_Hel_def payload_lo_def payload_Hi_def payload_completion_def
  payload_completion_text_def payload_boom_def payload_t2_def payload_no_thread_def
  payload_empty_def

lemma payload_trim:
  "trim payload_Hel = payload_Hel" "trim payload_lo = payload_lo" "trim payload_Hi = payload_Hi"
  "trim payload_completion = payload_completion"
  "trim payload_completion_text = payload_completion_text"
  "trim payload_boom = payload_boom" "trim payload_t2 = payload_t2"
  "trim payload_no_thread = payload_no_thread" "trim payload_empty = payload_empty"
  by (simp_all add: trim_id is_white_space_def payload_defs)

lemma payload_not_empty:
  "payload_Hel \<noteq> [] \<and> payload_Hel \<noteq> ''[DONE]''"
  "payload_lo \<noteq> [] \<and> payload_lo \<noteq> ''[DONE]''"
  "payload_Hi \<noteq> [] \<and> payload_Hi \<noteq> ''[DONE]''"
  "payload_completion \<noteq> [] \<and> payload_completion \<noteq> ''[DONE]''"
  "payload_completion_text \<noteq> [] \<and> payload_completion_text \<noteq> ''[DONE]''"
  "payload_boom \<noteq> [] \<and> payload_boom \<noteq> ''[DONE]''"
  "payload_t2 \<noteq> [] \<and> payload_t2 \<noteq> ''[DONE]''"
  "payload_no_thread \<noteq> [] \<and> payload_no_thread \<noteq> ''[DONE]''"
  "payload_empty \<noteq> [] \<and> payload_empty \<noteq> ''[DONE]''"
  by (simp_all add: payload_defs)

lemma line_no_newline:
  "CHR 0x0A \<notin> set (data_line payload_Hel)" "CHR 0x0A \<notin> set (data_line payload_lo)"
  "CHR 0x0A \<notin> set (data_line payload_Hi)" "CHR 0x0A \<notin> set (data_line payload_completion)"
  "CHR 0x0A \<notin> set (data_line payload_completion_text)"
  "CHR 0x0A \<notin> set (data_line payload_boom)" "CHR 0x0A \<notin> set (data_line payload_t2)"
  "CHR 0x0A \<notin> set (data_line payload_no_thread)" "CHR 0x0A \<notin> set (data_line payload_empty)"
  by (simp_all add: data_line_def payload_defs)

lemma parse_wire_payload:
  "parse_wire payload_Hel = Inr (frame ''delta'' ''Hel'' (Some ''t1'') None)"
  "parse_wire payload_lo = Inr (frame ''delta'' ''lo'' (Some ''t1'') None)"
  "parse_wire payload_Hi = Inr (frame ''delta'' ''Hi'' (Some ''t1'') None)"
  "parse_wire payload_completion = Inr (frame ''completion'' [] (Some ''t1'') None)"
  "parse_wire payload_completion_text = Inr (frame ''completion'' ''tail'' (Some ''t1'') None)"
  "parse_wire payload_boom = Inr (frame ''delta'' [] (Some ''t1'') (Some ''boom''))"
  "parse_wire payload_t2 = Inr (frame ''delta'' ''y'' (Some ''t2'') None)"
  "parse_wire payload_no_thread = Inr (frame ''delta'' ''x'' (Some []) None)"
  "parse_wire payload_empty = Inr (frame ''delta'' [] (Some []) None)"
  by (simp_all add: parse_wire_def wire_def payload_defs)

lemma decode_wire:
  "decode_line env1 (data_line payload_Hel) = Frame (frame ''delta'' ''Hel'' (Some ''t1'') None)"
  "decode_line env1 (data_line payload_lo) = Frame (frame ''delta'' ''lo'' (Some ''t1'') None)"
  "decode_line env1 (data_line payload_Hi) = Frame (frame ''delta'' ''Hi'' (Some ''t1'') None)"
  "decode_line env1 (data_line payload_completion) =
     Frame (frame ''completion'' [] (Some ''t1'') None)"
  "decode_line env1 (data_line payload_completion_text) =
     Frame (frame ''completion'' ''tail'' (Some ''t1'') None)"
  "decode_line env1 (data_line payload_boom) =
     Frame (frame ''delta'' [] (Some ''t1'') (Some ''boom''))"
  "decode_line env1 (data_line payload_t2) = Frame (frame ''delta'' ''y'' (Some ''t2'') None)"
  "decode_line env1 (data_line payload_no_thread) = Frame (frame ''delta'' ''x'' (Some []) None)"
  "decode_line env1 (data_line payload_empty) = Frame (frame ''delta'' [] (Some []) None)"
  by (simp_all add: decode_line_data payload_trim payload_not_empty parse_wire_payload env1_simps)

lemma decode_empty_line: "decode_line ev [] = Skip"
  by (simp add: decode_line_def startsWith_def)

lemma connected_io1: "connected (io1 ins)"
  by (simp add: connected_def io1_def truthy_def)

lemma frames_Hello:
  "frames_of_chunks env1
     [data_line payload_Hel @ CHR 0x0A # data_line payload_lo @ CHR 0x0A # [],
      data_line payload_completion @ CHR 0x0A # []] =
   [frame ''delta'' ''Hel'' (Some ''t1'') None, frame ''delta'' ''lo'' (Some ''t1'') None]
   @ [frame ''completion'' [] (Some ''t1'') None]"
  by (simp add: frames_of_chunks_def split_newline_line line_no_newline decode_wire
        decode_empty_line)

lemma payload_Hi_cut: "payload_Hi_head @ payload_Hi_tail = payload_Hi"
  by (simp add: payload_Hi_head_def payload_Hi_tail_def payload_Hi_def)

lemma decode_cut:
  "decode_line env1 (data_line payload_Hi_head) = Malformed ''SyntaxError''"
  "decode_line env1 payload_Hi_tail = Skip"
  "CHR 0x0A \<notin> set payload_Hi_tail"
  "CHR 0x0A \<notin> set (data_line payload_Hi_head)"
     apply (simp add: decode_line_data trim_id is_white_space_def env1_simps parse_wire_def wire_def
      payload_defs payload_Hi_head_def)
    apply (simp add: decode_line_def startsWith_def payload_Hi_tail_def)
   apply (simp add: payload_Hi_tail_def)
  apply (simp add: payload_Hi_head_def data_line_def)
  done

lemmas run_defs =
  streamApiResponse_def try_block_def io1_def idle_def truthy_def process_line_def
  process_frame_def frame_def emit_def finally_block_def catch_block_def Let_def

lemma no_token_run:
  "streamApiResponse env1 ((io1 [])\<lparr>token := None\<rparr>) idle =
     (Threw (Error ''Error'' ''No authentication token found''),
      \<lparr>isStreaming = False, streamingMessage = [], streamingId = [],
       abortControllerRef = None, aborted = {}, allocated = 1,
       accumulatedContent = [],
       emitted = [ConsoleError ''Streaming error:'' ''No authentication token found'',
                  MessageComplete (errorMessage env1)]\<rparr>)"
  by (simp add: run_defs)

lemma idle_emitted: "emitted idle = []"
  by (simp add: idle_def)

lemma io1_inputs: "inputs ((io1 ins)\<lparr>token := t\<rparr>) = ins"
  by (simp add: io1_def)

lemma frames_Hi:
  "frames_of_chunks env1 [data_line payload_Hi @ [CHR 0x0A]] =
     [frame ''delta'' ''Hi'' (Some ''t1'') None]"
  by (simp add: frames_of_chunks_def split_newline_line line_no_newline decode_wire
        decode_empty_line)

lemma mid_stream_run:
  "streamApiResponse env1 (io1 (chunk_reads [data_line payload_Hi @ [CHR 0x0A]])) idle =
     (Pending, mid_stream)"
  by (simp add: run_defs chunk_reads_def mid_stream_def split_newline_line line_no_newline
        decode_wire decode_empty_line)
    (simp add: env1_simps)

lemma cancelled_fetch_io:
  "truthy (token ((io1 [])\<lparr>during_fetch := [ChatChanged],
                           fetch_result := Inl (Error ''AbortError'' ''The user aborted a request.'')\<rparr>))
   \<and> during_fetch ((io1 [])\<lparr>during_fetch := [ChatChanged],
                           fetch_result := Inl (Error ''AbortError'' ''The user aborted a request.'')\<rparr>) \<noteq> []
   \<and> fetch_result ((io1 [])\<lparr>during_fetch := [ChatChanged],
                           fetch_result := Inl (Error ''AbortError'' ''The user aborted a request.'')\<rparr>) =
       Inl (Error ''AbortError'' ''The user aborted a request.'')
   \<and> \<not> reported (Error ''AbortError'' ''The user aborted a request.'')"
  by (simp add: io1_def truthy_def)

lemma env1_fields: "t_start env1 = 5" "chatId env1 = Some ''t1''"
  by (simp_all add: env1_def)

lemma trim_words:
  "trim ''hello'' = ''hello''" "trim ''again'' = ''again''" "trim ''third'' = ''third''"
  by (simp_all add: trim_def is_white_space_def)

lemmas history_defs = trim_words
  history_def mounted_def send_def enter_def fetch_settled_def read_settled_def fetching_def
  try_block_def idle_def truthy_def process_line_def process_frame_def frame_def emit_def
  finally_block_def catch_block_def Let_def split_newline_line line_no_newline decode_wire
  decode_empty_line env1_fields toString_clock handleStopGeneration_def chatId_effect_def
  abort_error_def cancelled_call_def

lemma first_session_run:
  "history idle first_session =
     \<lparr>shared = mid_stream\<lparr>emitted := [SendMessage ''hello'', StreamingUpdate ''Hi'']\<rparr>,
      calls = [0 \<mapsto> \<lparr>call_env = env1, call_token = Some ''secret'', awaits = Read,
                      call_content = ''Hi''\<rparr>]\<rparr>"
  by (simp add: first_session_def history_defs mid_stream_def)

lemma first_session_prompt: "prompt_cancel (mounted idle) first_session"
  by (simp add: first_session_def)

lemma restarted_run:
  "history idle restarted =
     \<lparr>shared =
        \<lparr>isStreaming = True, streamingMessage = [], streamingId = ''streaming-5'',
         abortControllerRef = Some 1, aborted = {0}, allocated = 2, accumulatedContent = [],
         emitted = [SendMessage ''hello'', StreamingUpdate ''Hi'', SendMessage ''again'']\<rparr>,
      calls = [1 \<mapsto> \<lparr>call_env = env1, call_token = Some ''secret'', awaits = Read,
                      call_content = []\<rparr>]\<rparr>"
  unfolding restarted_def history_append first_session_run
  by (simp add: history_defs mid_stream_def)

lemma restarted_prompt: "prompt_cancel (mounted idle) restarted"
  unfolding restarted_def
proof (rule prompt_cancel_append [OF first_session_prompt])
  show "prompt_cancel (fold occur first_session (mounted idle))
     [UserStop, ReadSettled 0 (Rejects abort_error), UserSend env1 (Some ''secret'') ''again'',
      FetchSettled 1 (Inr \<lparr>ok = True, status = 200, has_reader = True\<rparr>)]"
    unfolding history_def [symmetric] first_session_run
    by (simp add: cancelled_call_def mid_stream_def abort_error_def)
qed

lemma restarted_early_run:
  "history idle restarted_early =
     \<lparr>shared =
        \<lparr>isStreaming = False, streamingMessage = [], streamingId = [],
         abortControllerRef = None, aborted = {0}, allocated = 2, accumulatedContent = ''Hi'',
         emitted = [SendMessage ''hello'', StreamingUpdate ''Hi'', SendMessage ''again'']\<rparr>,
      calls = [1 \<mapsto> \<lparr>call_env = env1, call_token = Some ''secret'', awaits = Fetch,
                      call_content = []\<rparr>]\<rparr>"
  unfolding restarted_early_def history_append first_session_run
  by (simp add: history_defs mid_stream_def)

lemma restarted_early_not_prompt: "\<not> prompt_cancel (mounted idle) restarted_early"
  by (simp add: restarted_early_def first_session_def history_defs)

lemma stopped_run:
  "0 \<in> aborted (shared (history idle (first_session @ [UserStop])))"
  "updates (emitted (shared (history idle (first_session @ [UserStop])))) = [''Hi'']"
  unfolding history_append first_session_run
  by (simp_all add: handleStopGeneration_def mid_stream_def)

section \<open>An error frame\<close>

text \<open>
  Claim C1. A frame whose \<^verbatim>\<open>error_message\<close> is present should end the session as failed,
  with one error callback and no message settled before or after, and the frames after it
  should not be consumed. The code throws inside the inner \<^verbatim>\<open>try\<close>, whose \<^verbatim>\<open>catch\<close>
  logs the error and goes on: on a chunk holding the frame with \<^verbatim>\<open>"error_message":"boom"\<close>
  and a delta \<^verbatim>\<open>Hi\<close>, followed by a chunk holding a completion frame, the only effects of the
  error frame are two lines on the console, the delta is applied and shown, and the
  message \<^verbatim>\<open>Hi\<close> is settled: no error callback is made.
\<close>

theorem error_frame_is_swallowed:
  "streamApiResponse env1
     (io1 [ReadSettles (Value (data_line payload_boom @ CHR 0x0A #
                               data_line payload_Hi @ CHR 0x0A # [])),
           ReadSettles (Value (data_line payload_completion @ CHR 0x0A # [])),
           ReadSettles Done]) idle =
   (Returned,
    \<lparr>isStreaming = False, streamingMessage = [], streamingId = [],
     abortControllerRef = None, aborted = {}, allocated = 1,
     accumulatedContent = ''Hi'',
     emitted =
       [ConsoleError ''Stream error:'' ''boom'',
        ConsoleError ''Error parsing SSE data:'' ''boom'',
        StreamingUpdate ''Hi'',
        MessageComplete
          \<lparr>msg_id = ''6'', msg_role = assistant, msg_content = ''Hi'',
           msg_timestamp = 7\<rparr>]\<rparr>)"
  by (simp add: run_defs split_newline_line line_no_newline decode_wire decode_empty_line)
    (simp add: env1_simps)

section \<open>Deltas are concatenated\<close>

text \<open>
  Claim C2. Take a call that reaches its read loop, and chunks whose lines decode to the
  delta frames \<open>ds\<close>, each with the \<^verbatim>\<open>thread_id\<close> of the chat and no error message. After
  these chunks the accumulated text (and the text on display) is the concatenation of the
  contents of \<open>ds\<close> in arrival order. If a completion frame for the chat follows as the
  next frame, the call returns and has made exactly one more \<^verbatim>\<open>onMessageComplete\<close> call:
  its message has that concatenation as content, the role assistant and the timestamp read
  at that moment. Lines that are not frames may stand anywhere among the frames.
\<close>

theorem deltas_concatenate:
  assumes "connected x" and "\<forall>d\<in>set ds. matching_delta ev d"
  shows "(inputs x = chunk_reads chunks \<and> frames_of_chunks ev chunks = ds \<longrightarrow>
            (\<exists>st'. streamApiResponse ev x st = (Pending, st')
                \<and> accumulatedContent st' = concat (map content ds)
                \<and> streamingMessage st' = concat (map content ds)
                \<and> completions (emitted st') = completions (emitted st)))
       \<and> (inputs x = chunk_reads chunks @ rest \<and> frames_of_chunks ev chunks = ds @ [c]
            \<and> matching_completion ev c \<longrightarrow>
            (\<exists>st'. streamApiResponse ev x st = (Returned, st')
                \<and> accumulatedContent st' = concat (map content ds)
                \<and> completions (emitted st') = completions (emitted st) @
                     [\<lparr>msg_id = toString (t_id ev), msg_role = assistant,
                       msg_content = concat (map content ds), msg_timestamp = t_ts ev\<rparr>]))"
proof (intro conjI impI)
  assume a: "inputs x = chunk_reads chunks \<and> frames_of_chunks ev chunks = ds"
  with assms(2) have "\<forall>d\<in>set (frames_of_lines ev (concat (map split_newline chunks))). matching_delta ev d"
    by (simp add: frames_of_chunks_def)
  from deltas_lines [OF this, of "started ev st"] obtain st1 where
    1: "process_lines ev (started ev st) (concat (map split_newline chunks)) = (Continue, st1)"
    and 2: "accumulatedContent st1 = concat (map content ds)"
    and 3: "streamingMessage st1 = accumulatedContent st1"
    and 4: "completions (emitted st1) = completions (emitted st)"
    using a by (auto simp: frames_of_chunks_def)
  have "read_loop ev (allocated st) (started ev st) (chunk_reads chunks @ []) = (Pending, st1)"
    unfolding chunk_reads_def by (subst read_loop_values) (simp_all add: 1)
  with a assms(1) have "streamApiResponse ev x st = (Pending, st1)"
    by (simp add: streamApiResponse_connected)
  with 2 3 4 show "\<exists>st'. streamApiResponse ev x st = (Pending, st')
                \<and> accumulatedContent st' = concat (map content ds)
                \<and> streamingMessage st' = concat (map content ds)
                \<and> completions (emitted st') = completions (emitted st)"
    by simp
next
  assume a: "inputs x = chunk_reads chunks @ rest \<and> frames_of_chunks ev chunks = ds @ [c]
            \<and> matching_completion ev c"
  then have f: "frames_of_lines ev (concat (map split_newline chunks)) = ds @ [c]"
    by (simp add: frames_of_chunks_def)
  from deltas_completion_lines [OF f assms(2), of "started ev st"] a obtain st1 where
    1: "process_lines ev (started ev st) (concat (map split_newline chunks)) = (Return, st1)"
    and 2: "accumulatedContent st1 = concat (map content ds)"
    and 3: "completions (emitted st1) = completions (emitted st) @
                [finalMessage ev (concat (map content ds))]"
    by auto
  have "read_loop ev (allocated st) (started ev st) (chunk_reads chunks @ rest) = (Returned, st1)"
    unfolding chunk_reads_def by (subst read_loop_values) (simp_all add: 1)
  with a assms(1) have "streamApiResponse ev x st = (Returned, finally_block st1)"
    by (simp add: streamApiResponse_connected)
  with 2 3 show "\<exists>st'. streamApiResponse ev x st = (Returned, st')
                \<and> accumulatedContent st' = concat (map content ds)
                \<and> completions (emitted st') = completions (emitted st) @
                     [\<lparr>msg_id = toString (t_id ev), msg_role = assistant,
                       msg_content = concat (map content ds), msg_timestamp = t_ts ev\<rparr>]"
    by (simp add: finalMessage_def)
qed

text \<open>The deltas \<^verbatim>\<open>Hel\<close> and \<^verbatim>\<open>lo\<close> in one chunk, the completion frame in the next.\<close>

theorem deltas_concatenate_Hello:
  "\<exists>st'. streamApiResponse env1
       (io1 (chunk_reads [data_line payload_Hel @ CHR 0x0A # data_line payload_lo @ CHR 0x0A # [],
                     data_line payload_completion @ CHR 0x0A # []] @ [ReadSettles Done])) idle
       = (Returned, st')
     \<and> accumulatedContent st' = ''Hello''
     \<and> completions (emitted st') =
         [\<lparr>msg_id = ''6'', msg_role = assistant, msg_content = ''Hello'',
           msg_timestamp = 7\<rparr>]"
proof -
  have m: "\<forall>d\<in>set [frame ''delta'' ''Hel'' (Some ''t1'') None,
                     frame ''delta'' ''lo'' (Some ''t1'') None]. matching_delta env1 d"
    by (simp add: matching_delta_def frame_def env1_simps truthy_def)
  have c: "matching_completion env1 (frame ''completion'' [] (Some ''t1'') None)"
    by (simp add: matching_completion_def frame_def env1_simps truthy_def)
  have i: "inputs (io1 (chunk_reads [data_line payload_Hel @ CHR 0x0A # data_line payload_lo @ CHR 0x0A # [],
                     data_line payload_completion @ CHR 0x0A # []] @ [ReadSettles Done])) =
           chunk_reads [data_line payload_Hel @ CHR 0x0A # data_line payload_lo @ CHR 0x0A # [],
                     data_line payload_completion @ CHR 0x0A # []] @ [ReadSettles Done]"
    by (simp add: io1_def)
  from deltas_concatenate [OF connected_io1 m, THEN conjunct2, rule_format, OF conjI [OF i conjI [OF frames_Hello c]], of idle]
  show ?thesis
    by (simp add: frame_def env1_simps idle_def)
qed


section \<open>Frames for another chat\<close>

text \<open>
  Claim C5, as amended. A frame whose \<^verbatim>\<open>thread_id\<close> is not empty and differs from the
  \<^verbatim>\<open>chatId\<close> of the call is dropped: the accumulated text, the text on display and the
  streaming flag stay as they are and no callback is made. If the frame carries no error
  message the state does not change at all; if it carries one, the only trace it leaves
  is on the console.
\<close>

theorem other_thread_is_discarded:
  assumes "decode_line ev l = Frame d" and "truthy (thread_id d)" and "thread_id d \<noteq> chatId ev"
  shows "process_line ev st l =
           (Continue,
            if truthy (error_message d)
            then logged_error (case error_message d of Some s \<Rightarrow> s | None \<Rightarrow> []) st
            else st)
       \<and> accumulatedContent (snd (process_line ev st l)) = accumulatedContent st
       \<and> streamingMessage (snd (process_line ev st l)) = streamingMessage st
       \<and> isStreaming (snd (process_line ev st l)) = isStreaming st
       \<and> callbacks (emitted (snd (process_line ev st l))) = callbacks (emitted st)"
  using assms by (simp add: process_line_frame)

text \<open>A delta for the chat \<^verbatim>\<open>t2\<close> arriving in a call for \<^verbatim>\<open>t1\<close> that has accumulated \<^verbatim>\<open>Hi\<close>.\<close>

theorem other_thread_is_discarded_t2:
  "truthy (thread_id (frame ''delta'' ''y'' (Some ''t2'') None))
   \<and> thread_id (frame ''delta'' ''y'' (Some ''t2'') None) \<noteq> chatId env1
   \<and> process_line env1 (appended ''Hi'' (started env1 idle)) (data_line payload_t2) =
       (Continue, appended ''Hi'' (started env1 idle))"
proof -
  have a: "truthy (thread_id (frame ''delta'' ''y'' (Some ''t2'') None))"
    by (simp add: frame_def truthy_def)
  have b: "thread_id (frame ''delta'' ''y'' (Some ''t2'') None) \<noteq> chatId env1"
    by (simp add: frame_def env1_simps)
  from other_thread_is_discarded [OF decode_wire(7) a b, of "appended ''Hi'' (started env1 idle)"] a b
  show ?thesis by (simp add: frame_def truthy_def)
qed

text \<open>
  The claim as stated fails for a \<^verbatim>\<open>thread_id\<close> that is the empty string: it is not the
  \<^verbatim>\<open>chatId\<close> \<^verbatim>\<open>t1\<close>, and still the delta is appended and shown.
\<close>

theorem empty_thread_id_is_not_discarded:
  "thread_id (frame ''delta'' ''x'' (Some []) None) \<noteq> chatId env1
   \<and> decode_line env1 (data_line payload_no_thread) = Frame (frame ''delta'' ''x'' (Some []) None)
   \<and> streamApiResponse env1 (io1 [ReadSettles (Value (data_line payload_no_thread @ [CHR 0x0A]))])
       idle =
     (Pending,
      \<lparr>isStreaming = True, streamingMessage = ''x'',
       streamingId = ''streaming-5'',
       abortControllerRef = Some 0, aborted = {}, allocated = 1,
       accumulatedContent = ''x'', emitted = [StreamingUpdate ''x'']\<rparr>)"
  by (simp add: run_defs split_newline_line line_no_newline decode_wire decode_empty_line)
    (simp add: env1_simps)

section \<open>Frames without a thread id\<close>

text \<open>
  Claim C9, as amended. A delta frame with a content that is not empty and with no error
  message is dropped exactly when its \<^verbatim>\<open>thread_id\<close> is not empty and differs from the
  \<^verbatim>\<open>chatId\<close>. Otherwise, and so whenever the \<^verbatim>\<open>thread_id\<close> is empty or absent, whatever
  the \<^verbatim>\<open>chatId\<close> is, its content is appended to the accumulated text and
  \<^verbatim>\<open>onStreamingUpdate\<close> is called with the new text.
\<close>

theorem empty_thread_id_bypasses_filter:
  assumes "decode_line ev l = Frame d" and "frame_type d = ''delta''"
    and "content d \<noteq> []" and "\<not> truthy (error_message d)"
  shows "process_line ev st l =
           (if truthy (thread_id d) \<and> thread_id d \<noteq> chatId ev then (Continue, st)
            else (Continue,
                   emit (StreamingUpdate (accumulatedContent st @ content d))
                     (st\<lparr>accumulatedContent := accumulatedContent st @ content d,
                         streamingMessage := accumulatedContent st @ content d\<rparr>)))"
  using assms by (simp add: process_line_frame appended_def)

text \<open>A delta \<^verbatim>\<open>x\<close> with the empty \<^verbatim>\<open>thread_id\<close>, in a call for the chat \<^verbatim>\<open>t1\<close>.\<close>

theorem empty_thread_id_bypasses_filter_x:
  "\<not> truthy (thread_id (frame ''delta'' ''x'' (Some []) None))
   \<and> chatId env1 = Some ''t1''
   \<and> process_line env1 (started env1 idle) (data_line payload_no_thread) =
       (Continue,
        emit (StreamingUpdate ''x'')
          ((started env1 idle)\<lparr>accumulatedContent := ''x'', streamingMessage := ''x''\<rparr>))"
proof -
  have a: "frame_type (frame ''delta'' ''x'' (Some []) None) = ''delta''"
    and b: "content (frame ''delta'' ''x'' (Some []) None) \<noteq> []"
    and c: "\<not> truthy (error_message (frame ''delta'' ''x'' (Some []) None))"
    by (simp_all add: frame_def truthy_def)
  from empty_thread_id_bypasses_filter [OF decode_wire(8) a b c, of "started env1 idle"]
  show ?thesis by (simp add: frame_def truthy_def env1_simps started_def)
qed

text \<open>
  The claim as stated fails for a delta whose content is empty: with the empty
  \<^verbatim>\<open>thread_id\<close> it passes the filter, but the delta branch asks for a content, so no
  callback is made.
\<close>

theorem empty_delta_fires_no_update:
  "decode_line env1 (data_line payload_empty) = Frame (frame ''delta'' [] (Some []) None)
   \<and> streamApiResponse env1 (io1 [ReadSettles (Value (data_line payload_empty @ [CHR 0x0A]))]) idle =
     (Pending,
      \<lparr>isStreaming = True, streamingMessage = [],
       streamingId = ''streaming-5'',
       abortControllerRef = Some 0, aborted = {}, allocated = 1,
       accumulatedContent = [], emitted = []\<rparr>)"
  by (simp add: run_defs split_newline_line line_no_newline decode_wire decode_empty_line)
    (simp add: env1_simps)

section \<open>The content of a completion frame\<close>

text \<open>
  Claim C10. The content of a completion frame is ignored: what the loop body does with
  the frame does not depend on it, and when the frame settles the message, the content of
  the message is the text accumulated so far.
\<close>

theorem completion_content_is_ignored:
  assumes "decode_line ev l = Frame d" and "frame_type d = ''completion''"
  shows "process_frame ev st (d\<lparr>content := c\<rparr>) = process_frame ev st d
       \<and> process_line ev st l =
           (if truthy (error_message d) then
              (Continue, logged_error (case error_message d of Some s \<Rightarrow> s | None \<Rightarrow> []) st)
            else if truthy (thread_id d) \<and> thread_id d \<noteq> chatId ev then (Continue, st)
            else (Return,
                   (emit (MessageComplete
                            \<lparr>msg_id = toString (t_id ev), msg_role = assistant,
                             msg_content = accumulatedContent st, msg_timestamp = t_ts ev\<rparr>) st)
                     \<lparr>isStreaming := False, streamingMessage := [], streamingId := []\<rparr>))"
  using assms
  by (simp add: process_line_frame settled_def finalMessage_def process_frame_def)

text \<open>A completion frame with the content \<^verbatim>\<open>tail\<close>, after \<^verbatim>\<open>Hi\<close> has been accumulated.\<close>

theorem completion_content_is_ignored_tail:
  "process_frame env1 (appended ''Hi'' (started env1 idle))
       ((frame ''completion'' [] (Some ''t1'') None)\<lparr>content := ''tail''\<rparr>) =
     process_frame env1 (appended ''Hi'' (started env1 idle))
       (frame ''completion'' [] (Some ''t1'') None)
   \<and> completions (emitted (snd (process_line env1 (appended ''Hi'' (started env1 idle))
         (data_line payload_completion_text)))) =
       [\<lparr>msg_id = ''6'', msg_role = assistant, msg_content = ''Hi'',
         msg_timestamp = 7\<rparr>]"
proof -
  have t: "frame_type (frame ''completion'' ''tail'' (Some ''t1'') None) = ''completion''"
    by (simp add: frame_def)
  have t0: "frame_type (frame ''completion'' [] (Some ''t1'') None) = ''completion''"
    by (simp add: frame_def)
  from completion_content_is_ignored [OF decode_wire(5) t, of "appended ''Hi'' (started env1 idle)"]
  have 1: "completions (emitted (snd (process_line env1 (appended ''Hi'' (started env1 idle))
         (data_line payload_completion_text)))) =
       [\<lparr>msg_id = ''6'', msg_role = assistant, msg_content = ''Hi'',
         msg_timestamp = 7\<rparr>]"
    by (simp add: frame_def truthy_def env1_simps idle_def started_def appended_def emit_def)
  from completion_content_is_ignored [OF decode_wire(4) t0, of "appended ''Hi'' (started env1 idle)" "''tail''"]
  have 2: "process_frame env1 (appended ''Hi'' (started env1 idle))
       ((frame ''completion'' [] (Some ''t1'') None)\<lparr>content := ''tail''\<rparr>) =
     process_frame env1 (appended ''Hi'' (started env1 idle))
       (frame ''completion'' [] (Some ''t1'') None)"
    by simp
  from 1 2 show ?thesis by simp
qed

section \<open>Lines cut by a chunk boundary\<close>

text \<open>
  Claim C3, as amended. The loop keeps no text from one chunk to the next: every chunk is
  split into lines on its own, and the lines of all chunks are processed in order. A
  chunk boundary therefore acts as a line feed: delivering two chunks one after the other
  has the same effect as delivering them as one chunk with a line feed between them. A
  frame is decoded when its whole line lies within one chunk; a line cut by a chunk
  boundary is handled as two lines.
\<close>

theorem chunk_boundary_acts_as_line_feed:
  assumes "connected x" and "inputs x = chunk_reads (cs @ [c1, c2] @ cs') @ rest"
  shows "streamApiResponse ev x st =
           streamApiResponse ev (x\<lparr>inputs := chunk_reads (cs @ [c1 @ CHR 0x0A # c2] @ cs') @ rest\<rparr>) st
       \<and> streamApiResponse ev x st =
           catch_finally ev
             (case process_lines ev (started ev st)
                     (concat (map split_newline (cs @ [c1, c2] @ cs'))) of
                (Return, st') \<Rightarrow> (Returned, st')
              | (Continue, st') \<Rightarrow> read_loop ev (allocated st) st' rest)"
proof -
  from assms(1) have c: "connected (x\<lparr>inputs := chunk_reads (cs @ [c1 @ CHR 0x0A # c2] @ cs') @ rest\<rparr>)"
    by (simp add: connected_def)
  have 1: "read_loop ev (allocated st) (started ev st) (chunk_reads (cs @ [c1, c2] @ cs') @ rest) =
        (case process_lines ev (started ev st)
                     (concat (map split_newline (cs @ [c1, c2] @ cs'))) of
                (Return, st') \<Rightarrow> (Returned, st')
              | (Continue, st') \<Rightarrow> read_loop ev (allocated st) st' rest)"
    unfolding chunk_reads_def by (rule read_loop_values) simp
  have 2: "read_loop ev (allocated st) (started ev st)
             (chunk_reads (cs @ [c1 @ CHR 0x0A # c2] @ cs') @ rest) =
        (case process_lines ev (started ev st)
                     (concat (map split_newline (cs @ [c1 @ CHR 0x0A # c2] @ cs'))) of
                (Return, st') \<Rightarrow> (Returned, st')
              | (Continue, st') \<Rightarrow> read_loop ev (allocated st) st' rest)"
    unfolding chunk_reads_def by (rule read_loop_values) simp
  have L: "streamApiResponse ev x st =
        catch_finally ev
          (read_loop ev (allocated st) (started ev st) (chunk_reads (cs @ [c1, c2] @ cs') @ rest))"
    using assms by (simp add: streamApiResponse_connected)
  have R: "streamApiResponse ev
             (x\<lparr>inputs := chunk_reads (cs @ [c1 @ CHR 0x0A # c2] @ cs') @ rest\<rparr>) st =
        catch_finally ev
          (read_loop ev (allocated st) (started ev st)
             (chunk_reads (cs @ [c1 @ CHR 0x0A # c2] @ cs') @ rest))"
    using c by (simp add: streamApiResponse_connected)
  show ?thesis
    unfolding L R 1 2 concat_split_boundary by simp
qed

text \<open>The line of the delta \<^verbatim>\<open>Hi\<close>, cut inside its content, with no line feed after it.\<close>

theorem chunk_boundary_acts_as_line_feed_cut:
  "connected (io1 (chunk_reads ([] @ [data_line payload_Hi_head, payload_Hi_tail] @ []) @ []))
   \<and> streamApiResponse env1
       (io1 (chunk_reads [data_line payload_Hi_head, payload_Hi_tail])) idle =
     streamApiResponse env1
       (io1 (chunk_reads [data_line payload_Hi_head @ CHR 0x0A # payload_Hi_tail])) idle"
proof -
  have i: "inputs (io1 (chunk_reads ([] @ [data_line payload_Hi_head, payload_Hi_tail] @ []) @ [])) =
        chunk_reads ([] @ [data_line payload_Hi_head, payload_Hi_tail] @ []) @ []"
    by (simp add: io1_def)
  from chunk_boundary_acts_as_line_feed [OF connected_io1 i, of env1 idle] connected_io1
  show ?thesis by (simp add: io1_def)
qed

text \<open>
  The claim as stated fails: when the line of the delta \<^verbatim>\<open>Hi\<close> arrives in two chunks, the
  first piece is handed to \<^verbatim>\<open>JSON.parse\<close>, which throws, and the second is not a data
  line; the frame is lost. Delivered in one chunk, the same line is applied.
\<close>

theorem cut_line_loses_its_frame:
  "data_line payload_Hi_head @ payload_Hi_tail = data_line payload_Hi
   \<and> streamApiResponse env1
       (io1 (chunk_reads [data_line payload_Hi_head, payload_Hi_tail @ [CHR 0x0A]])) idle =
     (Pending,
      \<lparr>isStreaming = True, streamingMessage = [],
       streamingId = ''streaming-5'',
       abortControllerRef = Some 0, aborted = {}, allocated = 1,
       accumulatedContent = [],
       emitted = [ConsoleError ''Error parsing SSE data:'' ''SyntaxError'']\<rparr>)
   \<and> streamApiResponse env1 (io1 (chunk_reads [data_line payload_Hi @ [CHR 0x0A]])) idle =
     (Pending,
      \<lparr>isStreaming = True, streamingMessage = ''Hi'',
       streamingId = ''streaming-5'',
       abortControllerRef = Some 0, aborted = {}, allocated = 1,
       accumulatedContent = ''Hi'', emitted = [StreamingUpdate ''Hi'']\<rparr>)"
  apply (intro conjI)
    apply (simp add: data_line_def payload_Hi_cut)
   apply (simp add: run_defs chunk_reads_def split_newline_line split_newline_no_nl decode_cut
      decode_empty_line)
   apply (simp add: env1_simps)
  apply (simp add: run_defs chunk_reads_def split_newline_line line_no_newline decode_wire
      decode_empty_line)
  apply (simp add: env1_simps)
  done

section \<open>One terminal callback\<close>

text \<open>
  Claim C7, as amended. Every call hands over at most one message, and that is the last
  thing it does: when it ends by the return of the completion branch or by an exception
  that the outer \<^verbatim>\<open>catch\<close> reports, its trace grows by events without a message followed
  by exactly one \<^verbatim>\<open>onMessageComplete\<close>; in every other case (the stream ends without a
  completion frame, the call is cancelled, or it is still waiting) it hands over no
  message. Once the call has ended, nothing the reader would deliver later has any effect.
\<close>

theorem at_most_one_terminal_callback:
  assumes "streamApiResponse ev x st = (r, st')"
  shows "(\<exists>es. emitted st' = emitted st @ es
            \<and> (if terminal r
                then \<exists>pre m. es = pre @ [MessageComplete m] \<and> completions pre = []
                else completions es = []))
       \<and> (r \<noteq> Pending \<longrightarrow>
            streamApiResponse ev (x\<lparr>inputs := inputs x @ later\<rparr>) st = (r, st'))"
proof
  let ?st0 = "st\<lparr>isStreaming := True, streamingMessage := [],
                   streamingId := ''streaming-'' @ toString (t_start ev),
                   abortControllerRef := Some (allocated st),
                   aborted := aborted st - {allocated st},
                   allocated := Suc (allocated st)\<rparr>"
  obtain r0 s0 where t: "try_block ev x (allocated st) ?st0 = (r0, s0)"
    by (cases "try_block ev x (allocated st) ?st0")
  from assms t have c: "catch_finally ev (r0, s0) = (r, st')"
    by (simp add: streamApiResponse_def Let_def)
  then have r: "r0 = r" by (auto dest: catch_finally_exit)
  have "quiet st ?st0" by (simp add: quiet_same)
  with try_block_trace [OF t] have "if r0 = Returned then closing st s0 else quiet st s0"
    by (auto split: if_splits intro: quiet_trans quiet_closing)
  from catch_finally_trace [OF this, of ev]
  have "if terminal r0 then closing st (snd (catch_finally ev (r0, s0)))
        else quiet st (snd (catch_finally ev (r0, s0)))" .
  moreover from c have "snd (catch_finally ev (r0, s0)) = st'" by simp
  ultimately have "if terminal r0 then closing st st' else quiet st st'"
    by (auto split: if_splits)
  then have "if terminal r then closing st st' else quiet st st'" unfolding r .
  then show "\<exists>es. emitted st' = emitted st @ es
            \<and> (if terminal r
                then \<exists>pre m. es = pre @ [MessageComplete m] \<and> completions pre = []
                else completions es = [])"
    by (auto simp: closing_def quiet_def split: if_splits)
  show "r \<noteq> Pending \<longrightarrow>
            streamApiResponse ev (x\<lparr>inputs := inputs x @ later\<rparr>) st = (r, st')"
  proof
    assume "r \<noteq> Pending"
    with r t have "try_block ev (x\<lparr>inputs := inputs x @ later\<rparr>) (allocated st) ?st0 = (r0, s0)"
      by (simp add: try_block_more)
    with c show "streamApiResponse ev (x\<lparr>inputs := inputs x @ later\<rparr>) st = (r, st')"
      by (simp add: streamApiResponse_def Let_def)
  qed
qed

text \<open>A call that finds no token: one report, and a later read changes nothing.\<close>

theorem at_most_one_terminal_callback_no_token:
  "terminal (Threw (Error ''Error'' ''No authentication token found''))
   \<and> (\<exists>pre m. [ConsoleError ''Streaming error:'' ''No authentication token found'',
                 MessageComplete (errorMessage env1)] = pre @ [MessageComplete m]
         \<and> completions pre = [])
   \<and> streamApiResponse env1
       ((io1 [])\<lparr>token := None, inputs := [ReadSettles Done]\<rparr>) idle =
      streamApiResponse env1 ((io1 [])\<lparr>token := None\<rparr>) idle"
  using at_most_one_terminal_callback [OF no_token_run, of "[ReadSettles Done]"]
  by (simp add: no_token_run idle_emitted io1_inputs)

text \<open>
  The claim as stated fails: a stream that ends after a delta, with no completion frame
  and no cancellation, makes the call end without any terminal callback.
\<close>

theorem stream_end_without_completion:
  "streamApiResponse env1
     (io1 [ReadSettles (Value (data_line payload_Hi @ [CHR 0x0A])), ReadSettles Done]) idle =
     (Break,
      \<lparr>isStreaming = False, streamingMessage = [], streamingId = [],
       abortControllerRef = None, aborted = {}, allocated = 1,
       accumulatedContent = ''Hi'', emitted = [StreamingUpdate ''Hi'']\<rparr>)"
  by (simp add: run_defs split_newline_line line_no_newline decode_wire decode_empty_line)
    (simp add: env1_simps)

section \<open>Cancellation\<close>

text \<open>
  Claim C6. A call that is cancelled, by the stop button or by a change of chat, before
  a completion frame has arrived hands over no message and reports no error. If it is
  cancelled while \<^verbatim>\<open>fetch\<close> is pending, \<^verbatim>\<open>fetch\<close> rejects with an \<^verbatim>\<open>AbortError\<close>, which
  the outer \<^verbatim>\<open>catch\<close> passes over in silence. If it is cancelled while it waits for a read,
  after chunks that held no completion frame, then however the read settles (a chunk, the
  end of the stream, or the rejection of an aborted read) the call emits nothing more
  than it had emitted when it was cancelled, it has handed over no message, it does not
  end in one of the two ways that hand over a message, and the text on display is cleared.
\<close>

theorem cancellation_is_silent:
  "(truthy (token x) \<and> during_fetch x \<noteq> [] \<and> fetch_result x = Inl e0 \<and> \<not> reported e0 \<longrightarrow>
      (\<exists>st'. streamApiResponse ev x st = (Threw e0, st') \<and> emitted st' = emitted st
           \<and> \<not> isStreaming st' \<and> streamingMessage st' = [] \<and> allocated st \<in> aborted st'))
   \<and> (connected x \<and> inputs x = chunk_reads chunks @ Action a # post
       \<and> (\<forall>d\<in>set (frames_of_chunks ev chunks). frame_type d \<noteq> ''completion'')
       \<and> (\<forall>e. ReadSettles (Rejects e) \<in> set post \<longrightarrow> \<not> reported e) \<longrightarrow>
      (\<exists>r st' s. streamApiResponse ev x st = (r, st')
           \<and> streamApiResponse ev (x\<lparr>inputs := chunk_reads chunks\<rparr>) st = (Pending, s)
           \<and> emitted st' = emitted s
           \<and> completions (emitted s) = completions (emitted st)
           \<and> \<not> terminal r
           \<and> \<not> isStreaming st' \<and> streamingMessage st' = [] \<and> allocated st \<in> aborted st'))"
  using cancel_while_fetching [of x e0 ev st] cancel_while_reading [of x chunks a post ev st]
  by blast

text \<open>
  A change of chat while \<^verbatim>\<open>fetch\<close> is pending, and a press on stop after the delta \<^verbatim>\<open>Hi\<close>.
\<close>

theorem cancellation_is_silent_examples:
  "(\<exists>st'. streamApiResponse env1
            ((io1 [])\<lparr>during_fetch := [ChatChanged],
                      fetch_result := Inl (Error ''AbortError'' ''The user aborted a request.'')\<rparr>)
            idle = (Threw (Error ''AbortError'' ''The user aborted a request.''), st')
          \<and> emitted st' = [] \<and> \<not> isStreaming st' \<and> streamingMessage st' = [] \<and> 0 \<in> aborted st')
   \<and> connected (io1 (chunk_reads [data_line payload_Hi @ [CHR 0x0A]] @ Action StopClicked #
                     [ReadSettles (Rejects (Error ''AbortError'' ''The user aborted a request.''))]))
   \<and> (\<exists>r st'.
         streamApiResponse env1
           (io1 (chunk_reads [data_line payload_Hi @ [CHR 0x0A]] @ Action StopClicked #
                   [ReadSettles (Rejects (Error ''AbortError'' ''The user aborted a request.''))]))
           idle = (r, st')
         \<and> emitted st' = [StreamingUpdate ''Hi'']
         \<and> \<not> terminal r \<and> \<not> isStreaming st' \<and> streamingMessage st' = [] \<and> 0 \<in> aborted st')"
proof -
  let ?x = "io1 (chunk_reads [data_line payload_Hi @ [CHR 0x0A]] @ Action StopClicked #
                   [ReadSettles (Rejects (Error ''AbortError'' ''The user aborted a request.''))])"
  have i: "inputs ?x = chunk_reads [data_line payload_Hi @ [CHR 0x0A]] @ Action StopClicked #
                   [ReadSettles (Rejects (Error ''AbortError'' ''The user aborted a request.''))]"
    by (simp add: io1_def)
  have f: "\<forall>d\<in>set (frames_of_chunks env1 [data_line payload_Hi @ [CHR 0x0A]]).
             frame_type d \<noteq> ''completion''"
    by (simp add: frames_Hi frame_def)
  have p: "\<forall>e. ReadSettles (Rejects e) \<in>
               set [ReadSettles (Rejects (Error ''AbortError'' ''The user aborted a request.''))]
             \<longrightarrow> \<not> reported e"
    by simp
  have u: "?x\<lparr>inputs := chunk_reads [data_line payload_Hi @ [CHR 0x0A]]\<rparr> =
           io1 (chunk_reads [data_line payload_Hi @ [CHR 0x0A]])"
    by (simp add: io1_def)
  have a: "allocated idle = 0" by (simp add: idle_def)
  have m: "emitted mid_stream = [StreamingUpdate ''Hi'']" by (simp add: mid_stream_def)
  from cancellation_is_silent [where x = ?x and ev = env1 and st = idle
      and chunks = "[data_line payload_Hi @ [CHR 0x0A]]" and a = StopClicked
      and post = "[ReadSettles (Rejects (Error ''AbortError'' ''The user aborted a request.''))]",
      THEN conjunct2, rule_format, OF conjI [OF connected_io1 conjI [OF i conjI [OF f p]]]]
  have 2: "\<exists>r st'. streamApiResponse env1 ?x idle = (r, st')
         \<and> emitted st' = [StreamingUpdate ''Hi'']
         \<and> \<not> terminal r \<and> \<not> isStreaming st' \<and> streamingMessage st' = [] \<and> 0 \<in> aborted st'"
    unfolding u by (auto simp: mid_stream_run a m)
  from cancellation_is_silent [where ev = env1 and st = idle, THEN conjunct1, rule_format,
      OF cancelled_fetch_io]
  have 1: "\<exists>st'. streamApiResponse env1
            ((io1 [])\<lparr>during_fetch := [ChatChanged],
                      fetch_result := Inl (Error ''AbortError'' ''The user aborted a request.'')\<rparr>)
            idle = (Threw (Error ''AbortError'' ''The user aborted a request.''), st')
          \<and> emitted st' = [] \<and> \<not> isStreaming st' \<and> streamingMessage st' = [] \<and> 0 \<in> aborted st'"
    by (simp add: a idle_emitted)
  from 1 2 connected_io1 show ?thesis by blast
qed

section \<open>One session at a time\<close>

text \<open>
  Claim C4, as amended. Take any sequence of sends, stops, changes of chat and settlements
  of fetches and reads, for any number of calls, in which an abort takes effect
  immediately. If a call is suspended at its end, then the streaming flag is up, the ref
  holds the controller of that call, and the controller is not aborted; no other call is
  suspended, and whatever the transport delivers to another call now changes nothing. A
  message sent now is dropped: no call starts and the suspended one is not cancelled. The
  stop button and a change of chat abort the suspended call, which ends without a
  callback; no call is left, and the sequence so continued is again one in which an abort
  takes effect immediately. In any sequence at all, whether aborts take effect
  immediately or not, a call whose controller is aborted makes no further
  \<^verbatim>\<open>onStreamingUpdate\<close> call, whatever its \<^verbatim>\<open>fetch\<close> or its reads deliver.
\<close>

theorem one_session_at_a_time:
  assumes "prompt_cancel (mounted st) es" and "calls (history st es) c = Some k"
  shows "isStreaming (shared (history st es))
       \<and> abortControllerRef (shared (history st es)) = Some c
       \<and> c \<notin> aborted (shared (history st es))
       \<and> (\<forall>c'. c' \<noteq> c \<longrightarrow>
             calls (history st es) c' = None
             \<and> history st (es @ [FetchSettled c' res]) = history st es
             \<and> history st (es @ [ReadSettled c' r]) = history st es)
       \<and> history st (es @ [UserSend ev tok message]) = history st es
       \<and> (cancels e \<and> settles_aborted c k e' \<longrightarrow>
             prompt_cancel (mounted st) (es @ [e, e'])
             \<and> calls (history st (es @ [e, e'])) = Map.empty
             \<and> c \<in> aborted (shared (history st (es @ [e, e'])))
             \<and> emitted (shared (history st (es @ [e, e']))) = emitted (shared (history st es)))
       \<and> (d \<in> aborted (shared (history st any)) \<longrightarrow>
             updates (emitted (shared (history st (any @ [FetchSettled d res])))) =
               updates (emitted (shared (history st any)))
             \<and> updates (emitted (shared (history st (any @ [ReadSettled d r])))) =
               updates (emitted (shared (history st any))))"
proof -
  let ?s = "history st es"
  have i: "one_live ?s" using assms(1) by (rule one_live_history)
  from i assms(2) have 1: "isStreaming (shared ?s)" "abortControllerRef (shared ?s) = Some c"
    "c \<notin> aborted (shared ?s)"
    by (simp_all add: one_live_def)
  have 2: "\<forall>c'. c' \<noteq> c \<longrightarrow>
             calls ?s c' = None
             \<and> history st (es @ [FetchSettled c' res]) = ?s
             \<and> history st (es @ [ReadSettled c' r]) = ?s"
    using one_live_unique [OF i assms(2)]
    by (simp add: history_append fetch_settled_def read_settled_def)
  from 1 have 3: "history st (es @ [UserSend ev tok message]) = ?s"
    by (simp add: history_append send_def)
  have 4: "cancels e \<and> settles_aborted c k e' \<longrightarrow>
             prompt_cancel (mounted st) (es @ [e, e'])
             \<and> calls (history st (es @ [e, e'])) = Map.empty
             \<and> c \<in> aborted (shared (history st (es @ [e, e'])))
             \<and> emitted (shared (history st (es @ [e, e']))) = emitted (shared ?s)"
  proof
    assume a: "cancels e \<and> settles_aborted c k e'"
    then have ce: "cancels e" and sa: "settles_aborted c k e'" by simp_all
    from one_live_cancelled_call [OF i assms(2)] ce sa
    have "prompt_cancel (fold occur es (mounted st)) [e, e']"
      by (simp add: history_def)
    with assms(1) have "prompt_cancel (mounted st) (es @ [e, e'])"
      by (rule prompt_cancel_append)
    with cancel_live(1-3) [OF i assms(2) ce sa]
    show "prompt_cancel (mounted st) (es @ [e, e'])
             \<and> calls (history st (es @ [e, e'])) = Map.empty
             \<and> c \<in> aborted (shared (history st (es @ [e, e'])))
             \<and> emitted (shared (history st (es @ [e, e']))) = emitted (shared ?s)"
      by (simp add: history_append)
  qed
  have 5: "d \<in> aborted (shared (history st any)) \<longrightarrow>
             updates (emitted (shared (history st (any @ [FetchSettled d res])))) =
               updates (emitted (shared (history st any)))
             \<and> updates (emitted (shared (history st (any @ [ReadSettled d r])))) =
               updates (emitted (shared (history st any)))"
    by (simp add: history_append fetch_settled_updates aborted_read_settled)
  from 1 2 3 4 5 show ?thesis by blast
qed

text \<open>
  The first call is stopped after the delta \<^verbatim>\<open>Hi\<close> and a second one is started. The second
  holds the component; what is delivered to the first now, a failed \<^verbatim>\<open>fetch\<close> or the delta
  \<^verbatim>\<open>lo\<close>, changes nothing; a third message is dropped; a change of chat ends the second
  call without a callback. And while the first call is stopped but its read has not
  rejected yet, the delta \<^verbatim>\<open>lo\<close> is not shown.
\<close>

theorem one_session_at_a_time_restarted:
  "prompt_cancel (mounted idle) restarted
   \<and> calls (history idle restarted) 1 =
       Some \<lparr>call_env = env1, call_token = Some ''secret'', awaits = Read, call_content = []\<rparr>
   \<and> isStreaming (shared (history idle restarted))
   \<and> abortControllerRef (shared (history idle restarted)) = Some 1
   \<and> 1 \<notin> aborted (shared (history idle restarted))
   \<and> calls (history idle restarted) 0 = None
   \<and> history idle (restarted @ [FetchSettled 0 (Inl NonError)]) = history idle restarted
   \<and> history idle (restarted @ [ReadSettled 0 (Value (data_line payload_lo @ [CHR 0x0A]))]) =
       history idle restarted
   \<and> history idle (restarted @ [UserSend env1 (Some ''secret'') ''third'']) =
       history idle restarted
   \<and> cancels UserChatChange
   \<and> settles_aborted 1
         \<lparr>call_env = env1, call_token = Some ''secret'', awaits = Read, call_content = []\<rparr>
         (ReadSettled 1 (Rejects abort_error))
   \<and> prompt_cancel (mounted idle)
         (restarted @ [UserChatChange, ReadSettled 1 (Rejects abort_error)])
   \<and> calls (history idle (restarted @ [UserChatChange, ReadSettled 1 (Rejects abort_error)])) =
       Map.empty
   \<and> 1 \<in> aborted (shared (history idle
         (restarted @ [UserChatChange, ReadSettled 1 (Rejects abort_error)])))
   \<and> emitted (shared (history idle
         (restarted @ [UserChatChange, ReadSettled 1 (Rejects abort_error)]))) =
       [SendMessage ''hello'', StreamingUpdate ''Hi'', SendMessage ''again'']
   \<and> 0 \<in> aborted (shared (history idle (first_session @ [UserStop])))
   \<and> updates (emitted (shared (history idle
         ((first_session @ [UserStop]) @
          [ReadSettled 0 (Value (data_line payload_lo @ [CHR 0x0A]))])))) = [''Hi'']"
proof -
  let ?k = "\<lparr>call_env = env1, call_token = Some ''secret'', awaits = Read, call_content = []\<rparr>"
  have k: "calls (history idle restarted) 1 = Some ?k" by (simp add: restarted_run)
  have c: "cancels UserChatChange \<and> settles_aborted 1 ?k (ReadSettled 1 (Rejects abort_error))"
    by (simp add: abort_error_def)
  have e: "emitted (shared (history idle restarted)) =
           [SendMessage ''hello'', StreamingUpdate ''Hi'', SendMessage ''again'']"
    by (simp add: restarted_run)
  note t = one_session_at_a_time [OF restarted_prompt k,
      where res = "Inl NonError" and r = "Value (data_line payload_lo @ [CHR 0x0A])"
        and ev = env1 and tok = "Some ''secret''" and message = "''third''"
        and e = UserChatChange and e' = "ReadSettled 1 (Rejects abort_error)"
        and d = 0 and any = "first_session @ [UserStop]"]
  from t have 1: "isStreaming (shared (history idle restarted))
       \<and> abortControllerRef (shared (history idle restarted)) = Some 1
       \<and> 1 \<notin> aborted (shared (history idle restarted))
       \<and> history idle (restarted @ [UserSend env1 (Some ''secret'') ''third'']) =
           history idle restarted"
    by blast
  from t have "\<forall>c'. c' \<noteq> 1 \<longrightarrow>
             calls (history idle restarted) c' = None
             \<and> history idle (restarted @ [FetchSettled c' (Inl NonError)]) = history idle restarted
             \<and> history idle (restarted @ [ReadSettled c' (Value (data_line payload_lo @ [CHR 0x0A]))]) =
                 history idle restarted"
    by blast
  then have "(0::nat) \<noteq> 1 \<longrightarrow>
             calls (history idle restarted) 0 = None
             \<and> history idle (restarted @ [FetchSettled 0 (Inl NonError)]) = history idle restarted
             \<and> history idle (restarted @ [ReadSettled 0 (Value (data_line payload_lo @ [CHR 0x0A]))]) =
                 history idle restarted"
    by (rule spec)
  then have 2: "calls (history idle restarted) 0 = None
             \<and> history idle (restarted @ [FetchSettled 0 (Inl NonError)]) = history idle restarted
             \<and> history idle (restarted @ [ReadSettled 0 (Value (data_line payload_lo @ [CHR 0x0A]))]) =
                 history idle restarted"
    by simp
  from t c have 3: "prompt_cancel (mounted idle)
         (restarted @ [UserChatChange, ReadSettled 1 (Rejects abort_error)])
   \<and> calls (history idle (restarted @ [UserChatChange, ReadSettled 1 (Rejects abort_error)])) =
       Map.empty
   \<and> 1 \<in> aborted (shared (history idle
         (restarted @ [UserChatChange, ReadSettled 1 (Rejects abort_error)])))
   \<and> emitted (shared (history idle
         (restarted @ [UserChatChange, ReadSettled 1 (Rejects abort_error)]))) =
       emitted (shared (history idle restarted))"
    by blast
  from t stopped_run(1) have 4: "updates (emitted (shared (history idle
         ((first_session @ [UserStop]) @
          [ReadSettled 0 (Value (data_line payload_lo @ [CHR 0x0A]))])))) =
       updates (emitted (shared (history idle (first_session @ [UserStop]))))"
    by blast
  from restarted_prompt k c 1 2 3 4 stopped_run(1) show ?thesis
    unfolding e stopped_run(2) by blast
qed

text \<open>
  The claim as stated fails: sending a new message while the call is in the middle of its
  stream starts no new session and does not cancel the running one, whose controller
  stays in the ref, not aborted.
\<close>

theorem send_while_streaming_is_ignored:
  "streamApiResponse env1 (io1 (chunk_reads [data_line payload_Hi @ [CHR 0x0A]])) idle =
     (Pending, mid_stream)
   \<and> handleSendMessage env1 (io1 []) mid_stream ''again'' = (None, mid_stream)
   \<and> abortControllerRef mid_stream = Some 0 \<and> 0 \<notin> aborted mid_stream
   \<and> allocated mid_stream = 1"
  by (simp add: mid_stream_run handleSendMessage_def) (simp add: mid_stream_def)

text \<open>
  The condition on aborts is needed. Let the read of the stopped call reject only after
  the second message has been sent: the \<^verbatim>\<open>finally\<close> of the first call lowers the flag and
  empties the ref under the second call. The stop button no longer aborts the second
  call, and a third message starts a third call beside it.
\<close>

lemma late_rejection_clears_the_next_session:
  "\<not> prompt_cancel (mounted idle) restarted_early
   \<and> calls (history idle restarted_early) 1 =
       Some \<lparr>call_env = env1, call_token = Some ''secret'', awaits = Fetch, call_content = []\<rparr>
   \<and> \<not> isStreaming (shared (history idle restarted_early))
   \<and> abortControllerRef (shared (history idle restarted_early)) = None
   \<and> 1 \<notin> aborted (shared (history idle (restarted_early @ [UserStop])))
   \<and> calls (history idle (restarted_early @ [UserSend env1 (Some ''secret'') ''third''])) 1 =
       Some \<lparr>call_env = env1, call_token = Some ''secret'', awaits = Fetch, call_content = []\<rparr>
   \<and> calls (history idle (restarted_early @ [UserSend env1 (Some ''secret'') ''third''])) 2 =
       Some \<lparr>call_env = env1, call_token = Some ''secret'', awaits = Fetch, call_content = []\<rparr>"
proof -
  have "calls (history idle restarted_early) 1 =
       Some \<lparr>call_env = env1, call_token = Some ''secret'', awaits = Fetch, call_content = []\<rparr>
   \<and> \<not> isStreaming (shared (history idle restarted_early))
   \<and> abortControllerRef (shared (history idle restarted_early)) = None
   \<and> 1 \<notin> aborted (shared (history idle (restarted_early @ [UserStop])))
   \<and> calls (history idle (restarted_early @ [UserSend env1 (Some ''secret'') ''third''])) 1 =
       Some \<lparr>call_env = env1, call_token = Some ''secret'', awaits = Fetch, call_content = []\<rparr>
   \<and> calls (history idle (restarted_early @ [UserSend env1 (Some ''secret'') ''third''])) 2 =
       Some \<lparr>call_env = env1, call_token = Some ''secret'', awaits = Fetch, call_content = []\<rparr>"
    unfolding history_append restarted_early_run
    by (simp add: send_def enter_def emit_def Let_def truthy_def trim_words
          handleStopGeneration_def)
  with restarted_early_not_prompt show ?thesis by (rule conjI)
qed

section \<open>Decoding across chunk boundaries\<close>

text \<open>
  Claim C8. The text decoded from a stream of bytes does not depend on how the bytes are
  cut into chunks: two lists of chunks with the same bytes decode to the same characters
  and leave the decoder in the same state, and the characters are those the decoder gives
  for all the bytes in one chunk. In particular a multi-byte sequence cut by a chunk
  boundary gives the character it gives in one piece.
\<close>

theorem decoding_is_invariant_under_rechunking:
  assumes "concat chunks = concat chunks'"
  shows "concat (fst (decode_chunks d chunks)) = concat (fst (decode_chunks d chunks'))
       \<and> snd (decode_chunks d chunks) = snd (decode_chunks d chunks')
       \<and> concat (fst (decode_chunks d chunks)) = fst (decode d (concat chunks))"
  using decode_chunks_concat [of d chunks] decode_chunks_concat [of d chunks'] assms
  by (simp add: prod_eq_iff)

text \<open>The three bytes of U+20AC, cut after the first, and in one chunk.\<close>

theorem euro_sign_split_across_chunks:
  "concat [[0xE2], [0x82, 0xAC]] = concat [[0xE2, 0x82, 0xAC :: nat]]
   \<and> fst (decode_chunks new_TextDecoder [[0xE2], [0x82, 0xAC]]) = [[], [0x20AC]]
   \<and> concat (fst (decode_chunks new_TextDecoder [[0xE2, 0x82, 0xAC]])) = [0x20AC]"
proof -
  have c: "concat [[0xE2], [0x82, 0xAC]] = concat [[0xE2, 0x82, 0xAC :: nat]]" by simp
  have 1: "fst (decode_chunks new_TextDecoder [[0xE2], [0x82, 0xAC]]) = [[], [0x20AC]]"
    by (simp add: euro_pieces)
  from decoding_is_invariant_under_rechunking [OF c, of new_TextDecoder] 1 c
  show ?thesis by simp
qed

end
